theory Spec2Isabelle
  imports Complex_Main "HOL-Library.Log_Nat"
begin

section \<open>Board game: data model (TicTacToe.tsx)\<close>

text \<open>
  \<^verbatim>\<open>type Player = "X" | "O"; type Board = (Player | null)[]\<close>.
  A JavaScript array can also hold \<^verbatim>\<open>undefined\<close> (or a hole) at an index once an
  element has been stored beyond its length; none of the functions below tells a hole
  from \<^verbatim>\<open>undefined\<close> (\<^verbatim>\<open>every\<close> and \<^verbatim>\<open>reduce\<close> skip holes, and for \<^verbatim>\<open>undefined\<close> the
  tests \<^verbatim>\<open>square !== null\<close> and \<^verbatim>\<open>cell === null\<close> give the same answers), so both are
  the one value \<open>Undefined\<close>.
\<close>

datatype player = PlayerX | PlayerO

datatype cell = Null | Undefined | Mark player

type_synonym squares = "cell list"

text \<open>\<^verbatim>\<open>Player | "Draw"\<close>; the source's \<^verbatim>\<open>null\<close> result is \<open>None\<close>.\<close>

datatype outcome = Winner player | Draw

text \<open>The numbers the search computes with: integers and the two infinities.\<close>

datatype num = NegInf | Fin int | PosInf

fun num_le :: "num \<Rightarrow> num \<Rightarrow> bool" where
  "num_le NegInf _ = True"
| "num_le _ PosInf = True"
| "num_le (Fin a) (Fin b) = (a \<le> b)"
| "num_le _ _ = False"

text \<open>\<^verbatim>\<open>a > b\<close>, \<^verbatim>\<open>Math.max(a, b)\<close> and \<^verbatim>\<open>Math.min(a, b)\<close> on these numbers.\<close>

definition num_gt :: "num \<Rightarrow> num \<Rightarrow> bool" where
  "num_gt a b = (\<not> num_le a b)"

definition Math_max :: "num \<Rightarrow> num \<Rightarrow> num" where
  "Math_max a b = (if num_le a b then b else a)"

definition Math_min :: "num \<Rightarrow> num \<Rightarrow> num" where
  "Math_min a b = (if num_le a b then a else b)"

text \<open>Reading \<^verbatim>\<open>squares[i]\<close>: out of range gives \<^verbatim>\<open>undefined\<close>.\<close>

definition cell_at :: "squares \<Rightarrow> nat \<Rightarrow> cell" where
  "cell_at sq i = (if i < length sq then sq ! i else Undefined)"

text \<open>
  Writing \<^verbatim>\<open>squares[i] = v\<close> for an array index \<open>i\<close>: beyond the end the array grows,
  the skipped positions being holes.
\<close>

definition store :: "squares \<Rightarrow> nat \<Rightarrow> cell \<Rightarrow> squares" where
  "store sq i v =
     (if i < length sq then sq[i := v]
      else sq @ replicate (i - length sq) Undefined @ [v])"

definition WINNING_COMBINATIONS :: "(nat \<times> nat \<times> nat) list" where
  "WINNING_COMBINATIONS =
     [(0, 1, 2), (3, 4, 5), (6, 7, 8),
      (0, 3, 6), (1, 4, 7), (2, 5, 8),
      (0, 4, 8), (2, 4, 6)]"

text \<open>The \<^verbatim>\<open>for (const line of WINNING_COMBINATIONS)\<close> loop of \<^verbatim>\<open>checkWinner\<close>.\<close>

fun checkLines :: "squares \<Rightarrow> (nat \<times> nat \<times> nat) list \<Rightarrow> (player \<times> nat \<times> nat \<times> nat) option" where
  "checkLines sq [] = None"
| "checkLines sq ((a, b, c) # ls) =
     (case cell_at sq a of
        Mark p \<Rightarrow>
          if cell_at sq a = cell_at sq b \<and> cell_at sq a = cell_at sq c then Some (p, a, b, c)
          else checkLines sq ls
      | _ \<Rightarrow> checkLines sq ls)"

definition checkWinner :: "squares \<Rightarrow> outcome option \<times> (nat \<times> nat \<times> nat) option" where
  "checkWinner sq =
     (case checkLines sq WINNING_COMBINATIONS of
        Some (p, line) \<Rightarrow> (Some (Winner p), Some line)
      | None \<Rightarrow> (if list_all (\<lambda>square. square \<noteq> Null) sq then Some Draw else None, None))"

definition getEmptySquares :: "squares \<Rightarrow> nat list" where
  "getEmptySquares sq = filter (\<lambda>idx. sq ! idx = Null) [0..<length sq]"

subsection \<open>The search, on one shared array\<close>

text \<open>
  \<^verbatim>\<open>minimax\<close> writes its trial marks into the array it is given and takes them back, so
  the model threads the array through every call and returns it with the score. The
  recursion is bounded by a fuel argument (\<open>None\<close>: fuel exhausted). The two loops over
  \<^verbatim>\<open>emptySquares\<close> are \<open>max_loop\<close> and \<open>min_loop\<close>, with \<^verbatim>\<open>bestScore\<close> as accumulator and
  the recursive call as the parameter \<open>rec\<close>.
\<close>

type_synonym search = "squares \<Rightarrow> int \<Rightarrow> bool \<Rightarrow> (num \<times> squares) option"

fun max_loop :: "search \<Rightarrow> nat list \<Rightarrow> squares \<Rightarrow> int \<Rightarrow> num \<Rightarrow> (num \<times> squares) option" where
  "max_loop rec [] squares depth bestScore = Some (bestScore, squares)"
| "max_loop rec (move # rest) squares depth bestScore =
     (case rec (store squares move (Mark PlayerO)) (depth + 1) False of
        None \<Rightarrow> None
      | Some (score, squares') \<Rightarrow>
          max_loop rec rest (store squares' move Null) depth (Math_max bestScore score))"

fun min_loop :: "search \<Rightarrow> nat list \<Rightarrow> squares \<Rightarrow> int \<Rightarrow> num \<Rightarrow> (num \<times> squares) option" where
  "min_loop rec [] squares depth bestScore = Some (bestScore, squares)"
| "min_loop rec (move # rest) squares depth bestScore =
     (case rec (store squares move (Mark PlayerX)) (depth + 1) True of
        None \<Rightarrow> None
      | Some (score, squares') \<Rightarrow>
          min_loop rec rest (store squares' move Null) depth (Math_min bestScore score))"

primrec minimax :: "nat \<Rightarrow> search" where
  "minimax 0 squares depth isMaximizing = None"
| "minimax (Suc fuel) squares depth isMaximizing =
     (case fst (checkWinner squares) of
        Some (Winner PlayerO) \<Rightarrow> Some (Fin (10 - depth), squares)
      | Some (Winner PlayerX) \<Rightarrow> Some (Fin (depth - 10), squares)
      | Some Draw \<Rightarrow> Some (Fin 0, squares)
      | None \<Rightarrow>
          if isMaximizing
          then max_loop (minimax fuel) (getEmptySquares squares) squares depth NegInf
          else min_loop (minimax fuel) (getEmptySquares squares) squares depth PosInf)"

subsection \<open>Choosing the computer's move\<close>

datatype difficulty = Easy | Medium | Hard

text \<open>\<^verbatim>\<open>emptySquares[k]\<close> for an integer \<open>k\<close>; \<open>None\<close> is \<^verbatim>\<open>undefined\<close>.\<close>

definition pick :: "nat list \<Rightarrow> int \<Rightarrow> nat option" where
  "pick xs k = (if 0 \<le> k \<and> k < int (length xs) then Some (xs ! nat k) else None)"

text \<open>The loop of \<^verbatim>\<open>getAIMove\<close>, with \<^verbatim>\<open>bestScore\<close> and \<^verbatim>\<open>bestMove\<close> as accumulators.\<close>

fun best_loop :: "search \<Rightarrow> nat list \<Rightarrow> squares \<Rightarrow> num \<Rightarrow> nat option \<Rightarrow> (nat option \<times> squares) option" where
  "best_loop rec [] squares bestScore bestMove = Some (bestMove, squares)"
| "best_loop rec (move # rest) squares bestScore bestMove =
     (case rec (store squares move (Mark PlayerO)) 0 False of
        None \<Rightarrow> None
      | Some (score, squares') \<Rightarrow>
          if num_gt score bestScore
          then best_loop rec rest (store squares' move Null) score (Some move)
          else best_loop rec rest (store squares' move Null) bestScore bestMove)"

text \<open>
  \<^verbatim>\<open>getAIMove\<close>. The results of the calls of \<^verbatim>\<open>Math.random()\<close> are the arguments \<open>r1\<close>
  and \<open>r2\<close>, in the order of the calls; \<^verbatim>\<open>0.3\<close> is the double nearest to three tenths.
  The result is the move (\<open>None\<close>: \<^verbatim>\<open>undefined\<close>, when there is no empty square) and the
  array as the call leaves it.
\<close>

definition getAIMove :: "nat \<Rightarrow> difficulty \<Rightarrow> rat \<Rightarrow> rat \<Rightarrow> squares \<Rightarrow> (nat option \<times> squares) option" where
  "getAIMove fuel difficulty r1 r2 squares =
     (let emptySquares = getEmptySquares squares in
      if difficulty = Easy
      then Some (pick emptySquares \<lfloor>r1 * of_nat (length emptySquares)\<rfloor>, squares)
      else if difficulty = Medium \<and> r1 < 5404319552844595 / 18014398509481984
      then Some (pick emptySquares \<lfloor>r2 * of_nat (length emptySquares)\<rfloor>, squares)
      else best_loop (minimax fuel) emptySquares squares NegInf (pick emptySquares 0))"

subsection \<open>The game state and its handlers\<close>

text \<open>\<^verbatim>\<open>type GameMode = "ai" | "human"\<close> and \<^verbatim>\<open>GameStats\<close>.\<close>

datatype gameMode = AI | Human

record gameStats =
  wins :: int
  losses :: int
  draws :: int

text \<open>
  The argument of \<^verbatim>\<open>handleClick\<close>: an integer, or \<^verbatim>\<open>undefined\<close> (what \<^verbatim>\<open>getAIMove\<close>
  returns for a board with no empty square). Numbers that are not integers are not
  modelled.
\<close>

datatype arg = Number int | UndefinedArg

text \<open>
  The board as the array object it is: its elements, and the properties stored under
  keys that are not array indices (an index is an integer from \<open>0\<close> to \<open>2^32 - 2\<close>);
  \<^verbatim>\<open>board[-1] = "X"\<close> sets such a property and leaves the elements alone.
\<close>

record jsArray =
  elems :: squares
  props :: "arg \<Rightarrow> player option"

definition is_array_index :: "arg \<Rightarrow> bool" where
  "is_array_index k = (case k of Number i \<Rightarrow> 0 \<le> i \<and> i < 4294967295 | UndefinedArg \<Rightarrow> False)"

definition index_of :: "arg \<Rightarrow> nat" where
  "index_of k = (case k of Number i \<Rightarrow> nat i | UndefinedArg \<Rightarrow> 0)"

definition array_get :: "jsArray \<Rightarrow> arg \<Rightarrow> cell" where
  "array_get a k =
     (if is_array_index k then cell_at (elems a) (index_of k)
      else (case props a k of Some p \<Rightarrow> Mark p | None \<Rightarrow> Undefined))"

definition array_set :: "jsArray \<Rightarrow> arg \<Rightarrow> player \<Rightarrow> jsArray" where
  "array_set a k p =
     (if is_array_index k then a\<lparr>elems := store (elems a) (index_of k) (Mark p)\<rparr>
      else a\<lparr>props := (props a)(k \<mapsto> p)\<rparr>)"

text \<open>\<^verbatim>\<open>[...board]\<close>: a new array of the elements; other properties are not copied.\<close>

definition spread :: "jsArray \<Rightarrow> jsArray" where
  "spread a = \<lparr>elems = elems a, props = (\<lambda>k. None)\<rparr>"

text \<open>Truthiness of a cell: only a mark is truthy.\<close>

definition truthy :: "cell \<Rightarrow> bool" where
  "truthy c = (case c of Mark p \<Rightarrow> True | _ \<Rightarrow> False)"

text \<open>
  The component's state. \<^verbatim>\<open>showTutorial\<close> and \<^verbatim>\<open>aiInsult\<close> only feed the display and are
  left out.
\<close>

record game =
  board :: jsArray
  currentPlayer :: player
  winner :: "outcome option"
  gameMode :: gameMode
  difficulty :: difficulty
  stats :: gameStats
  winningLine :: "(nat \<times> nat \<times> nat) option"

definition updateStats :: "outcome \<Rightarrow> gameStats \<Rightarrow> gameStats" where
  "updateStats result prev =
     (if result = Draw then prev\<lparr>draws := draws prev + 1\<rparr>
      else if result = Winner PlayerX then prev\<lparr>wins := wins prev + 1\<rparr>
      else prev\<lparr>losses := losses prev + 1\<rparr>)"

definition handleClick :: "arg \<Rightarrow> game \<Rightarrow> game" where
  "handleClick index g =
     (if truthy (array_get (board g) index) \<or> winner g \<noteq> None then g
      else
        let newBoard = array_set (spread (board g)) index (currentPlayer g) in
        case checkWinner (elems newBoard) of
          (Some gameWinner, line) \<Rightarrow>
            g\<lparr>board := newBoard, winner := Some gameWinner, winningLine := line,
              stats := updateStats gameWinner (stats g)\<rparr>
        | (None, line) \<Rightarrow>
            g\<lparr>board := newBoard,
              currentPlayer := (if currentPlayer g = PlayerX then PlayerO else PlayerX)\<rparr>)"

text \<open>\<^verbatim>\<open>resetGame\<close>, \<^verbatim>\<open>resetStats\<close> and the two \<^verbatim>\<open>onChange\<close> handlers of the selectors.\<close>

definition resetGame :: "game \<Rightarrow> game" where
  "resetGame g =
     g\<lparr>board := \<lparr>elems = replicate 9 Null, props = (\<lambda>k. None)\<rparr>,
       currentPlayer := PlayerX, winner := None, winningLine := None\<rparr>"

definition resetStats :: "game \<Rightarrow> game" where
  "resetStats g = g\<lparr>stats := \<lparr>wins = 0, losses = 0, draws = 0\<rparr>\<rparr>"

definition selectGameMode :: "gameMode \<Rightarrow> game \<Rightarrow> game" where
  "selectGameMode m g = resetGame (g\<lparr>gameMode := m\<rparr>)"

definition selectDifficulty :: "difficulty \<Rightarrow> game \<Rightarrow> game" where
  "selectDifficulty d g = resetGame (g\<lparr>difficulty := d\<rparr>)"

text \<open>The initial values of the \<^verbatim>\<open>useState\<close> hooks.\<close>

definition initial_game :: game where
  "initial_game =
     \<lparr>board = \<lparr>elems = replicate 9 Null, props = (\<lambda>k. None)\<rparr>,
      currentPlayer = PlayerX, winner = None, gameMode = Human, difficulty = Medium,
      stats = \<lparr>wins = 0, losses = 0, draws = 0\<rparr>, winningLine = None\<rparr>"

text \<open>
  The effect that plays the computer's move: in AI mode, when it is \<^verbatim>\<open>O\<close>'s turn and
  nobody has won, \<^verbatim>\<open>handleClick(getAIMove([...board]))\<close>. The search gets as much fuel as
  there are empty squares, which is enough for it to return; the copy it worked on is
  dropped.
\<close>

definition aiTurn :: "rat \<Rightarrow> rat \<Rightarrow> game \<Rightarrow> game" where
  "aiTurn r1 r2 g =
     (if gameMode g = AI \<and> currentPlayer g = PlayerO \<and> winner g = None
      then
        (case getAIMove (length (getEmptySquares (elems (board g)))) (difficulty g) r1 r2
                (elems (board g)) of
           Some (Some aiMove, squares') \<Rightarrow> handleClick (Number (int aiMove)) g
         | Some (None, squares') \<Rightarrow> handleClick UndefinedArg g
         | None \<Rightarrow> g)
      else g)"

text \<open>
  A click of the human player on a cell, followed by the effect; \<open>play\<close> runs a
  sequence of clicks, each with the random numbers the effect may draw.
\<close>

definition click :: "int \<Rightarrow> rat \<Rightarrow> rat \<Rightarrow> game \<Rightarrow> game" where
  "click index r1 r2 g = aiTurn r1 r2 (handleClick (Number index) g)"

fun play :: "(int \<times> rat \<times> rat) list \<Rightarrow> game \<Rightarrow> game" where
  "play [] g = g"
| "play ((index, r1, r2) # rest) g = play rest (click index r1 r2 g)"

text \<open>A new game against the computer on the hard level.\<close>

definition hard_start :: game where
  "hard_start = selectDifficulty Hard (selectGameMode AI initial_game)"


subsection \<open>Empty squares\<close>

lemma getEmptySquares_iff:
  "i \<in> set (getEmptySquares sq) \<longleftrightarrow> i < length sq \<and> sq ! i = Null"
  by (auto simp: getEmptySquares_def)

lemma length_getEmptySquares:
  "length (getEmptySquares sq) = card {i. i < length sq \<and> sq ! i = Null}"
proof -
  have "distinct (getEmptySquares sq)"
    by (simp add: getEmptySquares_def)
  then have "length (getEmptySquares sq) = card (set (getEmptySquares sq))"
    by (simp add: distinct_card)
  also have "set (getEmptySquares sq) = {i. i < length sq \<and> sq ! i = Null}"
    by (auto simp: getEmptySquares_iff)
  finally show ?thesis .
qed

lemma store_in_range: "i < length sq \<Longrightarrow> store sq i v = sq[i := v]"
  by (simp add: store_def)

lemma empties_store_mark:
  assumes "i \<in> set (getEmptySquares sq)"
  shows "length (getEmptySquares (store sq i (Mark p))) < length (getEmptySquares sq)"
proof -
  from assms have i: "i < length sq" "sq ! i = Null"
    by (simp_all add: getEmptySquares_iff)
  let ?A = "{j. j < length sq \<and> sq ! j = Null}"
  let ?B = "{j. j < length (sq[i := Mark p]) \<and> sq[i := Mark p] ! j = Null}"
  have "?B \<subseteq> ?A - {i}"
    using i by (auto simp: nth_list_update split: if_splits)
  moreover have "finite ?A" by simp
  moreover have "i \<in> ?A" using i by simp
  ultimately have "card ?B < card ?A"
    by (metis (no_types, lifting) card_Diff1_less finite_Diff le_less_trans card_mono)
  then show ?thesis
    using i by (simp add: length_getEmptySquares store_in_range)
qed

subsection \<open>The reference search\<close>

text \<open>
  The exhaustive minimax of the specification, as a function of the position alone: a
  terminal leaf at search depth \<open>d\<close> scores \<open>10 - d\<close> when the computer's mark
  \<^verbatim>\<open>O\<close> has won, \<open>d - 10\<close> when the human's mark \<^verbatim>\<open>X\<close> has won and \<open>0\<close> for a draw;
  on the computer's turns the value is the maximum over the empty squares, on the
  opponent's turns the minimum. The recursion ends because every trial mark fills an
  empty square.
\<close>

function reference_value :: "squares \<Rightarrow> int \<Rightarrow> bool \<Rightarrow> int" where
  "reference_value sq d aiToMove =
     (case fst (checkWinner sq) of
        Some (Winner PlayerO) \<Rightarrow> 10 - d
      | Some (Winner PlayerX) \<Rightarrow> d - 10
      | Some Draw \<Rightarrow> 0
      | None \<Rightarrow>
          if aiToMove
          then Max (set (map (\<lambda>m. reference_value (store sq m (Mark PlayerO)) (d + 1) False)
                        (getEmptySquares sq)))
          else Min (set (map (\<lambda>m. reference_value (store sq m (Mark PlayerX)) (d + 1) True)
                        (getEmptySquares sq))))"
  by pat_completeness auto
termination
  by (relation "measure (\<lambda>(sq, d, aiToMove). length (getEmptySquares sq))")
     (auto simp: empties_store_mark)

text \<open>
  The move of the specification: among the empty squares whose value (searched from
  depth \<open>0\<close>, the opponent to move) is the greatest, the one with the smallest index.
\<close>

definition reference_choice :: "squares \<Rightarrow> nat" where
  "reference_choice sq =
     (let empties = set (getEmptySquares sq);
          v = (\<lambda>m. reference_value (store sq m (Mark PlayerO)) 0 False);
          best = Max (v ` empties)
      in Min {m \<in> empties. v m = best})"


subsection \<open>A search that certifies that the opponent cannot force a win\<close>

text \<open>
  \<open>safe_search\<close> answers whether the computer can keep the opponent from winning: on the
  opponent's turns every empty square must lead to a safe position, on the computer's
  turns one must. It tries squares in a fixed order and stops at the first answer.
\<close>

fun safe_all :: "(squares \<Rightarrow> bool) \<Rightarrow> squares \<Rightarrow> nat list \<Rightarrow> bool" where
  "safe_all rec sq [] = True"
| "safe_all rec sq (m # ms) =
     (if cell_at sq m = Null
      then (if rec (store sq m (Mark PlayerX)) then safe_all rec sq ms else False)
      else safe_all rec sq ms)"

fun safe_ex :: "(squares \<Rightarrow> bool) \<Rightarrow> squares \<Rightarrow> nat list \<Rightarrow> bool" where
  "safe_ex rec sq [] = False"
| "safe_ex rec sq (m # ms) =
     (if cell_at sq m = Null
      then (if rec (store sq m (Mark PlayerO)) then True else safe_ex rec sq ms)
      else safe_ex rec sq ms)"

definition ai_order :: "nat list" where
  "ai_order = [4, 6, 2, 8, 5, 1, 7, 0, 3]"

definition human_order :: "nat list" where
  "human_order = [6, 0, 3, 1, 4, 5, 8, 7, 2]"

primrec safe_search :: "nat \<Rightarrow> bool \<Rightarrow> squares \<Rightarrow> bool" where
  "safe_search 0 aiToMove sq = False"
| "safe_search (Suc n) aiToMove sq =
     (case fst (checkWinner sq) of
        Some (Winner PlayerX) \<Rightarrow> False
      | Some (Winner PlayerO) \<Rightarrow> True
      | Some Draw \<Rightarrow> True
      | None \<Rightarrow>
          if aiToMove then safe_ex (safe_search n False) sq ai_order
          else safe_all (safe_search n True) sq human_order)"

subsection \<open>Positions and invariants used below\<close>

text \<open>A position with two empty squares, used as an instance.\<close>

definition two_left :: squares where
  "two_left = [Mark PlayerX, Mark PlayerO, Mark PlayerX,
               Mark PlayerX, Mark PlayerO, Mark PlayerO,
               Null, Mark PlayerX, Null]"

text \<open>A position with three empty squares, used as an instance.\<close>

definition three_left :: squares where
  "three_left = [Mark PlayerX, Mark PlayerO, Mark PlayerX,
                 Null, Mark PlayerO, Null,
                 Null, Mark PlayerX, Mark PlayerO]"

text \<open>The position \<^verbatim>\<open>[X,X,_, _,O,_, _,_,_]\<close>.\<close>

definition block_board :: squares where
  "block_board = [Mark PlayerX, Mark PlayerX, Null, Null, Mark PlayerO, Null, Null, Null, Null]"

text \<open>
  What the play against the hard level keeps true: \<^verbatim>\<open>X\<close> has not won, and while the game
  goes on it is the human's turn on a full-size board without holes whose reference
  value is not negative.
\<close>

definition hard_inv :: "game \<Rightarrow> bool" where
  "hard_inv g =
     (gameMode g = AI \<and> difficulty g = Hard \<and> winner g \<noteq> Some (Winner PlayerX) \<and>
      (winner g = None \<longrightarrow>
         currentPlayer g = PlayerX \<and> length (elems (board g)) = 9 \<and>
         Undefined \<notin> set (elems (board g)) \<and>
         fst (checkWinner (elems (board g))) = None \<and>
         0 \<le> reference_value (elems (board g)) 0 False))"

section \<open>Snake (Snake.tsx)\<close>

text \<open>
  A grid cell \<^verbatim>\<open>{ x, y }\<close>; the direction of travel is such an object too, with
  components \<open>-1\<close>, \<open>0\<close> or \<open>1\<close>.
\<close>

datatype position = Pos (px: int) (py: int)

text \<open>
  The component's state: \<^verbatim>\<open>snake\<close> (head first), \<^verbatim>\<open>direction\<close>, \<^verbatim>\<open>food\<close>, \<^verbatim>\<open>gameOver\<close>,
  \<^verbatim>\<open>score\<close> and \<^verbatim>\<open>isPaused\<close>. Three fields carry the game's name, since the other
  components have fields of the same names.
\<close>

record snakeGame =
  snake :: "position list"
  snakeDirection :: position
  food :: position
  snakeOver :: bool
  snakeScore :: int
  isPaused :: bool

definition GRID_SIZE :: int where
  "GRID_SIZE = 20"

definition INITIAL_SNAKE :: "position list" where
  "INITIAL_SNAKE = [Pos 10 10]"

definition INITIAL_DIRECTION :: position where
  "INITIAL_DIRECTION = Pos 1 0"

text \<open>
  The remainder operator \<^verbatim>\<open>%\<close> on integers: the result has the sign of the dividend.
\<close>

definition js_rem :: "int \<Rightarrow> int \<Rightarrow> int" where
  "js_rem a b = sgn a * (\<bar>a\<bar> mod \<bar>b\<bar>)"

text \<open>\<^verbatim>\<open>generateFood\<close>, from the two results of \<^verbatim>\<open>Math.random()\<close>.\<close>

definition generateFood :: "rat \<Rightarrow> rat \<Rightarrow> position" where
  "generateFood r1 r2 = Pos \<lfloor>r1 * of_int GRID_SIZE\<rfloor> \<lfloor>r2 * of_int GRID_SIZE\<rfloor>"

text \<open>The cell the head moves to.\<close>

definition newHead :: "snakeGame \<Rightarrow> position \<Rightarrow> position" where
  "newHead s h =
     Pos (js_rem (px h + px (snakeDirection s) + GRID_SIZE) GRID_SIZE)
         (js_rem (py h + py (snakeDirection s) + GRID_SIZE) GRID_SIZE)"

text \<open>
  \<^verbatim>\<open>moveSnake\<close>, one tick. With an empty snake \<^verbatim>\<open>currentSnake[0].x\<close> throws a
  \<^verbatim>\<open>TypeError\<close>: the result \<open>None\<close>.
\<close>

definition moveSnake :: "rat \<Rightarrow> rat \<Rightarrow> snakeGame \<Rightarrow> snakeGame option" where
  "moveSnake r1 r2 s =
     (if snakeOver s \<or> isPaused s then Some s
      else
        case snake s of
          [] \<Rightarrow> None
        | h # rest \<Rightarrow>
            if list_ex (\<lambda>segment. px segment = px (newHead s h) \<and> py segment = py (newHead s h))
                 (snake s)
            then Some (s\<lparr>snakeOver := True\<rparr>)
            else if px (newHead s h) = px (food s) \<and> py (newHead s h) = py (food s)
            then Some (s\<lparr>snake := newHead s h # snake s, snakeScore := snakeScore s + 1,
                         food := generateFood r1 r2\<rparr>)
            else Some (s\<lparr>snake := butlast (newHead s h # snake s)\<rparr>))"

text \<open>
  The \<^verbatim>\<open>keydown\<close> handler, for an arrow key and for the space bar, and \<^verbatim>\<open>resetGame\<close>.
\<close>

definition snake_setDirection :: "position \<Rightarrow> snakeGame \<Rightarrow> snakeGame" where
  "snake_setDirection newDirection s =
     (if px (snakeDirection s) = - px newDirection \<and> py (snakeDirection s) = - py newDirection
      then s else s\<lparr>snakeDirection := newDirection\<rparr>)"

definition snake_togglePause :: "snakeGame \<Rightarrow> snakeGame" where
  "snake_togglePause s = s\<lparr>isPaused := \<not> isPaused s\<rparr>"

definition snake_resetGame :: "rat \<Rightarrow> rat \<Rightarrow> snakeGame \<Rightarrow> snakeGame" where
  "snake_resetGame r1 r2 s =
     s\<lparr>snake := INITIAL_SNAKE, snakeDirection := INITIAL_DIRECTION, snakeOver := False,
       snakeScore := 0, food := generateFood r1 r2\<rparr>"

definition snake_initial :: snakeGame where
  "snake_initial =
     \<lparr>snake = INITIAL_SNAKE, snakeDirection = INITIAL_DIRECTION, food = Pos 15 15,
      snakeOver = False, snakeScore = 0, isPaused = False\<rparr>"

text \<open>The four directions the arrow keys give.\<close>

definition arrow_directions :: "position set" where
  "arrow_directions = {Pos 0 (- 1), Pos 0 1, Pos (- 1) 0, Pos 1 0}"

text \<open>
  A snake of two segments heading left, the food lying on its second segment. The
  game gets there from a reset that puts the food right of the head: the snake eats
  it, the new food falls on the head's cell, the snake moves on, and the keys "up" and
  "left" are pressed between two ticks.
\<close>

definition snake_on_food :: snakeGame where
  "snake_on_food =
     \<lparr>snake = [Pos 12 10, Pos 11 10], snakeDirection = Pos (- 1) 0, food = Pos 11 10,
      snakeOver = False, snakeScore = 1, isPaused = False\<rparr>"

section \<open>Maze chase (the Pacman component)\<close>

datatype direction = Up | Down | Left | Right

text \<open>
  The component's state: \<^verbatim>\<open>pacman\<close>, \<^verbatim>\<open>ghosts\<close>, \<^verbatim>\<open>direction\<close>, \<^verbatim>\<open>score\<close>, \<^verbatim>\<open>dots\<close>,
  \<^verbatim>\<open>gameOver\<close> and \<^verbatim>\<open>gameWon\<close> (\<open>pacmanDirection\<close> and \<open>pacmanScore\<close> here).
\<close>

record pacmanGame =
  pacman :: position
  ghosts :: "position list"
  pacmanDirection :: direction
  pacmanScore :: int
  dots :: "position list"
  gameOver :: bool
  gameWon :: bool

definition PACMAN_GRID_SIZE :: nat where
  "PACMAN_GRID_SIZE = 15"

definition INITIAL_PACMAN :: position where
  "INITIAL_PACMAN = Pos 7 11"

definition INITIAL_GHOSTS :: "position list" where
  "INITIAL_GHOSTS = [Pos 1 1, Pos 13 1, Pos 1 13, Pos 13 13]"

definition WALLS :: "position list" where
  "WALLS =
     map (\<lambda>i. Pos (int i) 0) [0..<PACMAN_GRID_SIZE] @
     map (\<lambda>i. Pos (int i) (int PACMAN_GRID_SIZE - 1)) [0..<PACMAN_GRID_SIZE] @
     map (\<lambda>i. Pos 0 (int i)) [0..<PACMAN_GRID_SIZE] @
     map (\<lambda>i. Pos (int PACMAN_GRID_SIZE - 1) (int i)) [0..<PACMAN_GRID_SIZE] @
     [Pos 3 3, Pos 4 3, Pos 5 3,
      Pos 9 3, Pos 10 3, Pos 11 3,
      Pos 3 11, Pos 4 11, Pos 5 11,
      Pos 9 11, Pos 10 11, Pos 11 11,
      Pos 7 5, Pos 7 6, Pos 7 7,
      Pos 7 9, Pos 7 8]"

definition isWall :: "position \<Rightarrow> bool" where
  "isWall pos = list_ex (\<lambda>wall. px wall = px pos \<and> py wall = py pos) WALLS"

text \<open>\<^verbatim>\<open>initializeDots\<close>: every cell inside the border that is not a wall, column by column.\<close>

definition initializeDots :: "position list" where
  "initializeDots =
     concat (map (\<lambda>x. concat (map (\<lambda>y. if \<not> isWall (Pos (int x) (int y)) then [Pos (int x) (int y)] else [])
                               [1..<PACMAN_GRID_SIZE - 1]))
                 [1..<PACMAN_GRID_SIZE - 1])"

text \<open>\<^verbatim>\<open>possibleMoves[k]\<close> for an integer \<open>k\<close>; \<open>None\<close> is \<^verbatim>\<open>undefined\<close>.\<close>

definition pick_position :: "position list \<Rightarrow> int \<Rightarrow> position option" where
  "pick_position xs k = (if 0 \<le> k \<and> k < int (length xs) then Some (xs ! nat k) else None)"

text \<open>
  One ghost's step of \<^verbatim>\<open>moveGhosts\<close>, \<open>r\<close> being the result of its call of
  \<^verbatim>\<open>Math.random()\<close>; \<^verbatim>\<open>randomMove || ghost\<close> keeps the ghost in place when no move is
  possible.
\<close>

definition moveGhost :: "rat \<Rightarrow> position \<Rightarrow> position" where
  "moveGhost r ghost =
     (let possibleMoves =
            filter (\<lambda>pos. \<not> isWall pos)
              [Pos (px ghost + 1) (py ghost), Pos (px ghost - 1) (py ghost),
               Pos (px ghost) (py ghost + 1), Pos (px ghost) (py ghost - 1)]
      in case pick_position possibleMoves \<lfloor>r * of_nat (length possibleMoves)\<rfloor> of
           Some randomMove \<Rightarrow> randomMove
         | None \<Rightarrow> ghost)"

text \<open>\<^verbatim>\<open>moveGhosts\<close>: the ghosts in order, the \<open>i\<close>-th one drawing \<open>rnd i\<close>.\<close>

definition moveGhosts :: "(nat \<Rightarrow> rat) \<Rightarrow> position list \<Rightarrow> position list" where
  "moveGhosts rnd currentGhosts =
     map (\<lambda>(i, ghost). moveGhost (rnd i) ghost) (enumerate 0 currentGhosts)"

text \<open>The update of \<^verbatim>\<open>pacman\<close> in the interval callback.\<close>

definition movePacman :: "direction \<Rightarrow> position \<Rightarrow> position" where
  "movePacman d current =
     (let newPos = (case d of
                      Up \<Rightarrow> Pos (px current) (py current - 1)
                    | Down \<Rightarrow> Pos (px current) (py current + 1)
                    | Left \<Rightarrow> Pos (px current - 1) (py current)
                    | Right \<Rightarrow> Pos (px current + 1) (py current))
      in if isWall newPos then current else newPos)"

text \<open>\<^verbatim>\<open>dots.findIndex(...)\<close>; \<open>None\<close> is \<open>-1\<close>.\<close>

fun findIndex :: "('a \<Rightarrow> bool) \<Rightarrow> 'a list \<Rightarrow> nat option" where
  "findIndex P [] = None"
| "findIndex P (a # as) = (if P a then Some 0 else map_option Suc (findIndex P as))"

text \<open>The effect that collects a dot and detects a ghost on the player's cell.\<close>

definition collisions :: "pacmanGame \<Rightarrow> pacmanGame" where
  "collisions s =
     (let s1 = (case findIndex (\<lambda>dot. px dot = px (pacman s) \<and> py dot = py (pacman s)) (dots s) of
                  Some dotIndex \<Rightarrow>
                    let newDots = take dotIndex (dots s) @ drop (Suc dotIndex) (dots s) in
                    s\<lparr>dots := newDots, pacmanScore := pacmanScore s + 10,
                      gameWon := (if length newDots = 0 then True else gameWon s)\<rparr>
                | None \<Rightarrow> s)
      in if list_ex (\<lambda>ghost. px ghost = px (pacman s) \<and> py ghost = py (pacman s)) (ghosts s)
         then s1\<lparr>gameOver := True\<rparr> else s1)"

text \<open>
  One tick of the interval (it runs only while the game is neither over nor won),
  followed by the effect on the new positions.
\<close>

definition pacman_tick :: "(nat \<Rightarrow> rat) \<Rightarrow> pacmanGame \<Rightarrow> pacmanGame" where
  "pacman_tick rnd s =
     (if gameOver s \<or> gameWon s then s
      else collisions (s\<lparr>pacman := movePacman (pacmanDirection s) (pacman s),
                         ghosts := moveGhosts rnd (ghosts s)\<rparr>))"

definition pacman_setDirection :: "direction \<Rightarrow> pacmanGame \<Rightarrow> pacmanGame" where
  "pacman_setDirection d s = s\<lparr>pacmanDirection := d\<rparr>"

definition pacman_resetGame :: "pacmanGame \<Rightarrow> pacmanGame" where
  "pacman_resetGame s =
     collisions (s\<lparr>pacman := INITIAL_PACMAN, ghosts := INITIAL_GHOSTS, pacmanDirection := Right,
                  pacmanScore := 0, gameOver := False, gameWon := False,
                  dots := initializeDots\<rparr>)"

text \<open>The state after mounting: the initial values, the dots laid out, the effect run.\<close>

definition pacman_initial :: pacmanGame where
  "pacman_initial =
     collisions \<lparr>pacman = INITIAL_PACMAN, ghosts = INITIAL_GHOSTS, pacmanDirection = Right,
                 pacmanScore = 0, dots = initializeDots, gameOver = False, gameWon = False\<rparr>"

text \<open>What happens to the game: a tick with its random draws, an arrow key, a reset.\<close>

datatype pacman_event = Tick "nat \<Rightarrow> rat" | Key direction | Reset

fun pacman_step :: "pacman_event \<Rightarrow> pacmanGame \<Rightarrow> pacmanGame" where
  "pacman_step (Tick rnd) s = pacman_tick rnd s"
| "pacman_step (Key d) s = pacman_setDirection d s"
| "pacman_step Reset s = pacman_resetGame s"

text \<open>Neither the player nor a ghost stands on a wall.\<close>

definition off_walls :: "pacmanGame \<Rightarrow> bool" where
  "off_walls s = (\<not> isWall (pacman s) \<and> list_all (\<lambda>ghost. \<not> isWall ghost) (ghosts s))"

section \<open>Word guessing (the Hangman component)\<close>

datatype category = Animals | Celebrities | Movies | Sports | Food

text \<open>\<^verbatim>\<open>interface Word { word; hint; difficulty }\<close>.\<close>

record wordEntry =
  word :: string
  hint :: string
  wordDifficulty :: difficulty

definition WORD_LIST :: "category \<Rightarrow> wordEntry list" where
  "WORD_LIST c =
     (case c of
        Animals \<Rightarrow>
          [\<lparr>word = ''ELEPHANT'', hint = ''Largest land mammal with a trunk'', wordDifficulty = Easy\<rparr>,
           \<lparr>word = ''PENGUIN'', hint = ''Flightless bird that loves the cold'', wordDifficulty = Easy\<rparr>,
           \<lparr>word = ''GIRAFFE'', hint = ''Tallest land animal with a long neck'', wordDifficulty = Easy\<rparr>,
           \<lparr>word = ''PLATYPUS'', hint = ''Egg-laying mammal with a duck bill'', wordDifficulty = Medium\<rparr>,
           \<lparr>word = ''CHAMELEON'', hint = ''Reptile that changes color'', wordDifficulty = Hard\<rparr>]
      | Celebrities \<Rightarrow>
          [\<lparr>word = ''BEYONCE'', hint = ''Queen B, famous singer'', wordDifficulty = Easy\<rparr>,
           \<lparr>word = ''DICAPRIO'', hint = ''Titanic actor who finally won an Oscar'', wordDifficulty = Medium\<rparr>,
           \<lparr>word = ''SPIELBERG'', hint = ''Director of Jurassic Park and E.T.'', wordDifficulty = Medium\<rparr>,
           \<lparr>word = ''ZENDAYA'', hint = ''Euphoria and Spider-Man actress'', wordDifficulty = Easy\<rparr>,
           \<lparr>word = ''SCHWARZENEGGER'', hint = ''I'll be back'', wordDifficulty = Hard\<rparr>]
      | Movies \<Rightarrow>
          [\<lparr>word = ''INCEPTION'', hint = ''Dream within a dream'', wordDifficulty = Medium\<rparr>,
           \<lparr>word = ''AVATAR'', hint = ''Blue aliens on Pandora'', wordDifficulty = Easy\<rparr>,
           \<lparr>word = ''INTERSTELLAR'', hint = ''Space travel through a black hole'', wordDifficulty = Hard\<rparr>,
           \<lparr>word = ''JAWS'', hint = ''Dangerous shark'', wordDifficulty = Easy\<rparr>,
           \<lparr>word = ''PULPFICTION'', hint = ''Quentin Tarantino's masterpiece'', wordDifficulty = Medium\<rparr>]
      | Sports \<Rightarrow>
          [\<lparr>word = ''BASKETBALL'', hint = ''Slam dunk sport'', wordDifficulty = Medium\<rparr>,
           \<lparr>word = ''TENNIS'', hint = ''Love means zero'', wordDifficulty = Easy\<rparr>,
           \<lparr>word = ''VOLLEYBALL'', hint = ''Beach sport with a net'', wordDifficulty = Medium\<rparr>,
           \<lparr>word = ''CRICKET'', hint = ''Popular in India and England'', wordDifficulty = Easy\<rparr>,
           \<lparr>word = ''BADMINTON'', hint = ''Shuttlecock sport'', wordDifficulty = Medium\<rparr>]
      | Food \<Rightarrow>
          [\<lparr>word = ''SPAGHETTI'', hint = ''Italian noodles'', wordDifficulty = Medium\<rparr>,
           \<lparr>word = ''SUSHI'', hint = ''Japanese raw fish dish'', wordDifficulty = Easy\<rparr>,
           \<lparr>word = ''GUACAMOLE'', hint = ''Avocado-based dip'', wordDifficulty = Hard\<rparr>,
           \<lparr>word = ''PIZZA'', hint = ''Italian pie with toppings'', wordDifficulty = Easy\<rparr>,
           \<lparr>word = ''CROISSANT'', hint = ''French crescent-shaped pastry'', wordDifficulty = Medium\<rparr>])"

definition MAX_TRIES :: int where
  "MAX_TRIES = 6"

datatype gameStatus = Playing | Won | Lost

text \<open>
  The component's state. \<^verbatim>\<open>showTutorial\<close> and \<^verbatim>\<open>showHint\<close> only feed the display and are
  left out. A guessed letter is one character, as the on-screen keyboard passes it.
\<close>

record hangman =
  category :: category
  currentWord :: wordEntry
  guessedLetters :: "char set"
  remainingTries :: int
  gameStatus :: gameStatus
  score :: int
  highScore :: int
  streak :: int


subsection \<open>Numbers\<close>

text \<open>
  JavaScript numbers are IEEE 754 doubles. Integers are exact in them up to \<open>2^53\<close>,
  and the counters of this component are modelled as integers. The score formula
  divides by six, which is not exact, so the model rounds as the machine does:
  \<open>to_double\<close> takes a rational to the nearest double, ties to the even significand
  (for magnitudes in the normal range, between \<open>2^-1022\<close> and \<open>2^1024\<close>).
\<close>

definition round_half_even :: "rat \<Rightarrow> int" where
  "round_half_even v =
     (let f = \<lfloor>v\<rfloor>; d = v - of_int f
      in if d < 1 / 2 then f else if 1 / 2 < d then f + 1 else if even f then f else f + 1)"

text \<open>The exponent \<open>e\<close> with \<open>2^e \<le> v < 2^(e + 1)\<close>, for positive \<open>v\<close>.\<close>

definition binary_exponent :: "rat \<Rightarrow> int" where
  "binary_exponent v =
     (let (p, q) = quotient_of v;
          e = bitlen p - bitlen q
      in if v < 2 powi e then e - 1 else e)"

definition to_double :: "rat \<Rightarrow> rat" where
  "to_double v =
     (if v = 0 then 0
      else let ulp = 2 powi (binary_exponent \<bar>v\<bar> - 52)
           in of_int (round_half_even (v / ulp)) * ulp)"

text \<open>\<^verbatim>\<open>a * b\<close> and \<^verbatim>\<open>a / b\<close> on doubles, and \<^verbatim>\<open>Math.round\<close> (ties go up).\<close>

definition mul_double :: "rat \<Rightarrow> rat \<Rightarrow> rat" where
  "mul_double a b = to_double (a * b)"

definition div_double :: "rat \<Rightarrow> rat \<Rightarrow> rat" where
  "div_double a b = to_double (a / b)"

definition Math_round :: "rat \<Rightarrow> int" where
  "Math_round v = \<lfloor>v + 1 / 2\<rfloor>"

subsection \<open>The handlers\<close>

text \<open>\<^verbatim>\<open>difficultyMultiplier\<close>: 1, 1.5 and 2, all exact doubles.\<close>

definition difficultyMultiplier :: "difficulty \<Rightarrow> rat" where
  "difficultyMultiplier d = (case d of Easy \<Rightarrow> 1 | Medium \<Rightarrow> 3 / 2 | Hard \<Rightarrow> 2)"

definition calculateWordScore :: "string \<Rightarrow> int \<Rightarrow> difficulty \<Rightarrow> int" where
  "calculateWordScore w tries d =
     Math_round
       (mul_double
          (mul_double (mul_double (of_nat (length w)) 10) (difficultyMultiplier d))
          (div_double (of_int tries) (of_int MAX_TRIES)))"

definition guessLetter :: "char \<Rightarrow> hangman \<Rightarrow> hangman" where
  "guessLetter letter s =
     (if gameStatus s \<noteq> Playing then s
      else
        let newGuessedLetters = insert letter (guessedLetters s);
            s1 = s\<lparr>guessedLetters := newGuessedLetters\<rparr>
        in if letter \<notin> set (word (currentWord s))
           then
             let newRemainingTries = remainingTries s - 1;
                 s2 = s1\<lparr>remainingTries := newRemainingTries\<rparr>
             in if newRemainingTries = 0 then s2\<lparr>gameStatus := Lost, streak := 0\<rparr> else s2
           else
             if list_all (\<lambda>char. char \<in> newGuessedLetters) (word (currentWord s))
             then
               let wordScore = calculateWordScore (word (currentWord s)) (remainingTries s)
                                 (wordDifficulty (currentWord s))
               in s1\<lparr>score := score s + wordScore,
                     highScore := max (highScore s) (score s + wordScore),
                     streak := streak s + 1,
                     gameStatus := Won\<rparr>
             else s1)"

text \<open>
  \<^verbatim>\<open>initializeGame\<close>: \<open>r\<close> is the result of \<^verbatim>\<open>Math.random()\<close>. The word lists are not
  empty and \<open>r\<close> lies in \<open>[0, 1)\<close>, so the index is in range; outside that (where
  JavaScript would store \<^verbatim>\<open>undefined\<close>) the model leaves the word as it is.
\<close>

definition initializeGame :: "rat \<Rightarrow> hangman \<Rightarrow> hangman" where
  "initializeGame r s =
     (let wordList = WORD_LIST (category s);
          k = \<lfloor>r * of_nat (length wordList)\<rfloor>
      in s\<lparr>currentWord := (if 0 \<le> k \<and> k < int (length wordList) then wordList ! nat k
                             else currentWord s),
           guessedLetters := {}, remainingTries := MAX_TRIES, gameStatus := Playing\<rparr>)"

text \<open>Choosing a category (the effect then starts a game), and the reset-stats button.\<close>

definition selectCategory :: "category \<Rightarrow> rat \<Rightarrow> hangman \<Rightarrow> hangman" where
  "selectCategory c r s = initializeGame r (s\<lparr>category := c\<rparr>)"

definition hangman_resetStats :: "hangman \<Rightarrow> hangman" where
  "hangman_resetStats s = s\<lparr>score := 0, highScore := 0, streak := 0\<rparr>"

text \<open>The initial values of the \<^verbatim>\<open>useState\<close> hooks (the effect then starts a game).\<close>

definition hangman_initial :: hangman where
  "hangman_initial =
     \<lparr>category = Animals,
      currentWord = \<lparr>word = [], hint = [], wordDifficulty = Easy\<rparr>,
      guessedLetters = {}, remainingTries = MAX_TRIES, gameStatus = Playing,
      score = 0, highScore = 0, streak = 0\<rparr>"

text \<open>What happens to the game.\<close>

datatype hangman_event =
  GuessLetter char | PlayAgain rat | SelectCategory category rat | ResetStats

fun hangman_step :: "hangman_event \<Rightarrow> hangman \<Rightarrow> hangman" where
  "hangman_step (GuessLetter letter) s = guessLetter letter s"
| "hangman_step (PlayAgain r) s = initializeGame r s"
| "hangman_step (SelectCategory c r) s = selectCategory c r s"
| "hangman_step ResetStats s = hangman_resetStats s"

text \<open>
  A game on the word JAWS in which the letter Z has been tried: the state after choosing
  the category of the movies, the draw giving the fourth word, and guessing Z.
\<close>

definition jaws_after_z :: hangman where
  "jaws_after_z =
     \<lparr>category = Movies,
      currentWord = \<lparr>word = ''JAWS'', hint = ''Dangerous shark'', wordDifficulty = Easy\<rparr>,
      guessedLetters = {CHR ''Z''}, remainingTries = 5, gameStatus = Playing,
      score = 0, highScore = 0, streak = 0\<rparr>"

text \<open>A sequence of guesses, and games on the words SNAKE and INCEPTION.\<close>

definition guessLetters :: "string \<Rightarrow> hangman \<Rightarrow> hangman" where
  "guessLetters letters s = fold guessLetter letters s"

definition snake_word_game :: hangman where
  "snake_word_game =
     \<lparr>category = Animals,
      currentWord = \<lparr>word = ''SNAKE'', hint = [], wordDifficulty = Easy\<rparr>,
      guessedLetters = {}, remainingTries = MAX_TRIES, gameStatus = Playing,
      score = 0, highScore = 0, streak = 0\<rparr>"

definition inception_last_try :: hangman where
  "inception_last_try =
     \<lparr>category = Movies,
      currentWord = \<lparr>word = ''INCEPTION'', hint = ''Dream within a dream'',
                      wordDifficulty = Medium\<rparr>,
      guessedLetters = set ''INCEPTABDFG'', remainingTries = 1, gameStatus = Playing,
      score = 0, highScore = 0, streak = 0\<rparr>"

section \<open>Board game: the search and the reference\<close>

declare reference_value.simps [simp del]

lemma store_undo:
  "i \<in> set (getEmptySquares sq) \<Longrightarrow> store (store sq i v) i Null = sq"
  by (simp add: getEmptySquares_iff store_def list_update_same_conv)

lemma Math_max_Fin: "Math_max (Fin a) (Fin b) = Fin (max a b)"
  by (simp add: Math_max_def max_def)

lemma Math_min_Fin: "Math_min (Fin a) (Fin b) = Fin (min a b)"
  by (simp add: Math_min_def min_def)

lemma Math_max_NegInf: "Math_max NegInf v = v"
  by (simp add: Math_max_def)

lemma Math_min_PosInf: "Math_min PosInf v = v"
  by (cases v) (simp_all add: Math_min_def)

lemma fold_Math_max_Fin:
  "fold (\<lambda>m b. Math_max b (Fin (f m))) ms (Fin a) = Fin (Max (insert a (f ` set ms)))"
proof (induction ms arbitrary: a)
  case Nil
  show ?case by simp
next
  case (Cons m ms)
  have "Max (insert (max a (f m)) (f ` set ms)) = Max (insert a (insert (f m) (f ` set ms)))"
    by (cases "set ms = {}") (simp_all add: max.assoc)
  then show ?case
    by (simp add: Math_max_Fin Cons.IH)
qed

lemma fold_Math_min_Fin:
  "fold (\<lambda>m b. Math_min b (Fin (f m))) ms (Fin a) = Fin (Min (insert a (f ` set ms)))"
proof (induction ms arbitrary: a)
  case Nil
  show ?case by simp
next
  case (Cons m ms)
  have "Min (insert (min a (f m)) (f ` set ms)) = Min (insert a (insert (f m) (f ` set ms)))"
    by (cases "set ms = {}") (simp_all add: min.assoc)
  then show ?case
    by (simp add: Math_min_Fin Cons.IH)
qed

lemma fold_Math_max_NegInf:
  "ms \<noteq> [] \<Longrightarrow> fold (\<lambda>m b. Math_max b (Fin (f m))) ms NegInf = Fin (Max (set (map f ms)))"
  by (cases ms) (simp_all add: Math_max_NegInf fold_Math_max_Fin)

lemma fold_Math_min_PosInf:
  "ms \<noteq> [] \<Longrightarrow> fold (\<lambda>m b. Math_min b (Fin (f m))) ms PosInf = Fin (Min (set (map f ms)))"
  by (cases ms) (simp_all add: Math_min_PosInf fold_Math_min_Fin)

lemma max_loop_fold:
  assumes "set moves \<subseteq> set (getEmptySquares sq)"
    and "\<And>m. m \<in> set moves \<Longrightarrow>
           rec (store sq m (Mark PlayerO)) (d + 1) False
             = Some (Fin (f m), store sq m (Mark PlayerO))"
  shows "max_loop rec moves sq d best = Some (fold (\<lambda>m b. Math_max b (Fin (f m))) moves best, sq)"
  using assms
proof (induction moves arbitrary: best)
  case Nil
  show ?case by simp
next
  case (Cons m ms)
  then show ?case
    by (simp add: store_undo)
qed

lemma min_loop_fold:
  assumes "set moves \<subseteq> set (getEmptySquares sq)"
    and "\<And>m. m \<in> set moves \<Longrightarrow>
           rec (store sq m (Mark PlayerX)) (d + 1) True
             = Some (Fin (f m), store sq m (Mark PlayerX))"
  shows "min_loop rec moves sq d best = Some (fold (\<lambda>m b. Math_min b (Fin (f m))) moves best, sq)"
  using assms
proof (induction moves arbitrary: best)
  case Nil
  show ?case by simp
next
  case (Cons m ms)
  then show ?case
    by (simp add: store_undo)
qed

lemma nonterminal_has_empty:
  assumes "fst (checkWinner sq) = None"
  shows "getEmptySquares sq \<noteq> []"
proof -
  from assms have "\<not> list_all (\<lambda>square. square \<noteq> Null) sq"
    by (auto simp: checkWinner_def split: option.splits if_splits)
  then obtain i where "i < length sq" "sq ! i = Null"
    by (auto simp: list_all_iff in_set_conv_nth)
  then have "i \<in> set (getEmptySquares sq)"
    by (simp add: getEmptySquares_iff)
  then show ?thesis by auto
qed

lemma minimax_reference:
  "length (getEmptySquares sq) < fuel \<Longrightarrow>
     minimax fuel sq d t = Some (Fin (reference_value sq d t), sq)"
proof (induction fuel arbitrary: sq d t)
  case 0
  then show ?case by simp
next
  case (Suc fuel)
  show ?case
  proof (cases "fst (checkWinner sq)")
    case (Some w)
    then show ?thesis
      by (cases w rule: outcome.exhaust; simp add: reference_value.simps [of sq] split: player.splits)
  next
    case None
    have ne: "getEmptySquares sq \<noteq> []"
      using None by (rule nonterminal_has_empty)
    have rec: "minimax fuel (store sq m (Mark p)) d' t'
                 = Some (Fin (reference_value (store sq m (Mark p)) d' t'), store sq m (Mark p))"
      if "m \<in> set (getEmptySquares sq)" for m p d' t'
    proof -
      have "length (getEmptySquares (store sq m (Mark p))) < length (getEmptySquares sq)"
        using that by (rule empties_store_mark)
      with Suc.prems have "length (getEmptySquares (store sq m (Mark p))) < fuel"
        by simp
      then show ?thesis by (rule Suc.IH)
    qed
    show ?thesis
    proof (cases t)
      case True
      have "max_loop (minimax fuel) (getEmptySquares sq) sq d NegInf
              = Some (fold (\<lambda>m b. Math_max b
                   (Fin (reference_value (store sq m (Mark PlayerO)) (d + 1) False)))
                   (getEmptySquares sq) NegInf, sq)"
        by (rule max_loop_fold) (simp_all add: rec)
      with None True ne show ?thesis
        by (simp add: fold_Math_max_NegInf reference_value.simps [of sq])
    next
      case False
      have "min_loop (minimax fuel) (getEmptySquares sq) sq d PosInf
              = Some (fold (\<lambda>m b. Math_min b
                   (Fin (reference_value (store sq m (Mark PlayerX)) (d + 1) True)))
                   (getEmptySquares sq) PosInf, sq)"
        by (rule min_loop_fold) (simp_all add: rec)
      with None False ne show ?thesis
        by (simp add: fold_Math_min_PosInf reference_value.simps [of sq])
    qed
  qed
qed

lemma num_gt_Fin: "num_gt (Fin a) (Fin b) = (b < a)"
  by (simp add: num_gt_def not_le)

lemma num_gt_NegInf: "num_gt (Fin a) NegInf"
  by (simp add: num_gt_def)

lemma sorted_getEmptySquares: "sorted_wrt (<) (getEmptySquares sq)"
  by (simp add: getEmptySquares_def sorted_wrt_filter)

lemma best_loop_first_max:
  assumes "set moves \<subseteq> set (getEmptySquares sq)"
    and "\<And>m. m \<in> set moves \<Longrightarrow>
           rec (store sq m (Mark PlayerO)) 0 False = Some (Fin (f m), store sq m (Mark PlayerO))"
    and "finite P" and "m0 \<in> P" and "f m0 = Max (f ` P)"
    and "\<And>p. p \<in> P \<Longrightarrow> f p = f m0 \<Longrightarrow> m0 \<le> p"
    and "\<And>p m. p \<in> P \<Longrightarrow> m \<in> set moves \<Longrightarrow> p < m"
    and "sorted_wrt (<) moves"
  shows "best_loop rec moves sq (Fin (f m0)) (Some m0)
           = Some (Some (Min {m \<in> P \<union> set moves. f m = Max (f ` (P \<union> set moves))}), sq)"
  using assms
proof (induction moves arbitrary: P m0)
  case Nil
  have "Min {m \<in> P. f m = Max (f ` P)} = m0"
  proof (rule Min_eqI)
    show "finite {m \<in> P. f m = Max (f ` P)}" using Nil.prems(3) by simp
    show "m0 \<in> {m \<in> P. f m = Max (f ` P)}" using Nil.prems(4,5) by simp
    show "m0 \<le> y" if "y \<in> {m \<in> P. f m = Max (f ` P)}" for y
      using that Nil.prems(5,6) by simp
  qed
  then show ?case by simp
next
  case (Cons m ms)
  have recm: "rec (store sq m (Mark PlayerO)) 0 False = Some (Fin (f m), store sq m (Mark PlayerO))"
    by (rule Cons.prems(2)) simp
  have m_empty: "m \<in> set (getEmptySquares sq)"
    using Cons.prems(1) by simp
  have fin: "finite (insert m P)" using Cons.prems(3) by simp
  have le_max: "f p \<le> f m0" if "p \<in> P" for p
    using that Cons.prems(3,5) by simp
  have set_eq: "P \<union> set (m # ms) = insert m P \<union> set ms" by auto
  have lt: "p < m'" if "p \<in> insert m P" "m' \<in> set ms" for p m'
    using that Cons.prems(7) [of p m'] Cons.prems(8) by auto
  show ?case
  proof (cases "f m0 < f m")
    case True
    have mx: "f m = Max (f ` insert m P)"
      using True le_max Cons.prems(3,4)
      by (intro Max_eqI [symmetric]) (auto simp: less_imp_le dest: le_max)
    have least: "m \<le> p" if "p \<in> insert m P" "f p = f m" for p
      using that True le_max [of p] by auto
    have ih: "best_loop rec ms sq (Fin (f m)) (Some m)
            = Some (Some (Min {x \<in> insert m P \<union> set ms. f x = Max (f ` (insert m P \<union> set ms))}), sq)"
      using Cons.prems(1,2,8) fin mx least lt
      by (intro Cons.IH) auto
    have step: "best_loop rec (m # ms) sq (Fin (f m0)) (Some m0)
                  = best_loop rec ms sq (Fin (f m)) (Some m)"
      using True by (simp add: recm num_gt_Fin store_undo [OF m_empty])
    show ?thesis
      unfolding step set_eq by (rule ih)
  next
    case False
    have mx: "f m0 = Max (f ` insert m P)"
      using False le_max Cons.prems(3,4)
      by (intro Max_eqI [symmetric]) (auto dest: le_max)
    have m0_lt: "m0 < m" using Cons.prems(7) [of m0 m] Cons.prems(4) by simp
    have least: "m0 \<le> p" if "p \<in> insert m P" "f p = f m0" for p
      using that m0_lt Cons.prems(6) [of p] by auto
    have ih: "best_loop rec ms sq (Fin (f m0)) (Some m0)
            = Some (Some (Min {x \<in> insert m P \<union> set ms. f x = Max (f ` (insert m P \<union> set ms))}), sq)"
      using Cons.prems(1,2,4,8) fin mx least lt
      by (intro Cons.IH) auto
    have step: "best_loop rec (m # ms) sq (Fin (f m0)) (Some m0)
                  = best_loop rec ms sq (Fin (f m0)) (Some m0)"
      using False by (simp add: recm num_gt_Fin store_undo [OF m_empty])
    show ?thesis
      unfolding step set_eq by (rule ih)
  qed
qed

lemma getAIMove_hard_reference:
  assumes ne: "getEmptySquares sq \<noteq> []"
    and fuel: "length (getEmptySquares sq) \<le> fuel"
  shows "getAIMove fuel Hard r1 r2 sq = Some (Some (reference_choice sq), sq)"
proof -
  let ?f = "\<lambda>m. reference_value (store sq m (Mark PlayerO)) 0 False"
  obtain m1 ms where es: "getEmptySquares sq = m1 # ms"
    using ne by (cases "getEmptySquares sq") auto
  have rec: "minimax fuel (store sq m (Mark PlayerO)) 0 False
               = Some (Fin (?f m), store sq m (Mark PlayerO))"
    if "m \<in> set (getEmptySquares sq)" for m
  proof -
    have "length (getEmptySquares (store sq m (Mark PlayerO))) < length (getEmptySquares sq)"
      using that by (rule empties_store_mark)
    with fuel have "length (getEmptySquares (store sq m (Mark PlayerO))) < fuel"
      by simp
    then show ?thesis by (rule minimax_reference)
  qed
  have srt: "sorted_wrt (<) (m1 # ms)"
    using sorted_getEmptySquares [of sq] by (simp add: es)
  have m1: "m1 \<in> set (getEmptySquares sq)" by (simp add: es)
  have "best_loop (minimax fuel) ms sq (Fin (?f m1)) (Some m1)
          = Some (Some (Min {m \<in> {m1} \<union> set ms. ?f m = Max (?f ` ({m1} \<union> set ms))}), sq)"
    using srt by (intro best_loop_first_max) (auto simp: es rec)
  then have "best_loop (minimax fuel) (m1 # ms) sq NegInf (Some m1)
          = Some (Some (Min {m \<in> set (m1 # ms). ?f m = Max (?f ` set (m1 # ms))}), sq)"
    by (simp add: rec [OF m1] num_gt_NegInf store_undo [OF m1])
  then show ?thesis
    by (simp add: getAIMove_def reference_choice_def es pick_def Let_def)
qed

lemma best_loop_restores:
  assumes "set moves \<subseteq> set (getEmptySquares sq)"
    and "\<And>m. m \<in> set moves \<Longrightarrow>
           \<exists>v. rec (store sq m (Mark PlayerO)) 0 False = Some (v, store sq m (Mark PlayerO))"
  shows "\<exists>move. best_loop rec moves sq bestScore bestMove = Some (move, sq)"
  using assms
proof (induction moves arbitrary: bestScore bestMove)
  case Nil
  show ?case by simp
next
  case (Cons m ms)
  obtain v where "rec (store sq m (Mark PlayerO)) 0 False = Some (v, store sq m (Mark PlayerO))"
    using Cons.prems(2) [of m] by auto
  moreover have "m \<in> set (getEmptySquares sq)" using Cons.prems(1) by simp
  moreover have "\<exists>move. best_loop rec ms sq bs bm = Some (move, sq)" for bs bm
    using Cons.prems by (intro Cons.IH) auto
  ultimately show ?case
    by (simp add: store_undo)
qed

text \<open>
  Claim C9. \<^verbatim>\<open>minimax\<close> and \<^verbatim>\<open>getAIMove\<close> hand back the array they were given, element
  for element: given more fuel than the board has empty squares, each returns, and the
  array it returns is the one it received, for every board, depth, turn, difficulty and
  random draw. Every trial mark has been taken back.
\<close>

theorem search_restores_board:
  assumes "length (getEmptySquares squares) < fuel"
  shows "(\<exists>v. minimax fuel squares depth isMaximizing = Some (v, squares)) \<and>
         (\<exists>move. getAIMove fuel level r1 r2 squares = Some (move, squares))"
proof
  show "\<exists>v. minimax fuel squares depth isMaximizing = Some (v, squares)"
    using minimax_reference [OF assms] by blast
  have "\<exists>move. best_loop (minimax fuel) (getEmptySquares squares) squares bs bm = Some (move, squares)"
    for bs bm
  proof (rule best_loop_restores)
    show "set (getEmptySquares squares) \<subseteq> set (getEmptySquares squares)" by simp
    show "\<exists>v. minimax fuel (store squares m (Mark PlayerO)) 0 False
                    = Some (v, store squares m (Mark PlayerO))"
      if "m \<in> set (getEmptySquares squares)" for m
    proof -
      have "length (getEmptySquares (store squares m (Mark PlayerO))) < fuel"
        using empties_store_mark [OF that, of PlayerO] assms by simp
      from minimax_reference [OF this] show ?thesis by blast
    qed
  qed
  then show "\<exists>move. getAIMove fuel level r1 r2 squares = Some (move, squares)"
    by (simp add: getAIMove_def Let_def)
qed

lemma two_left_empties: "getEmptySquares two_left = [6, 8]"
  by code_simp

theorem search_restores_board_witness:
  "(\<exists>v. minimax 3 two_left 0 True = Some (v, two_left)) \<and>
   (\<exists>move. getAIMove 3 Medium (1 / 2) 0 two_left = Some (move, two_left))"
  using search_restores_board [of two_left 3 0 True Medium "1 / 2" 0]
  by (simp add: two_left_empties)

text \<open>
  Claim C2. On every board that is not terminal (so that it has an empty square), the
  move \<^verbatim>\<open>getAIMove\<close> returns on the hard level is the reference choice: the smallest
  index among the empty squares whose reference minimax value is the greatest. The
  fuel only has to cover the empty squares, and the array comes back unchanged.
\<close>

theorem hard_move_is_reference_choice:
  assumes "fst (checkWinner squares) = None"
    and "length (getEmptySquares squares) \<le> fuel"
  shows "getAIMove fuel Hard r1 r2 squares = Some (Some (reference_choice squares), squares)"
  using nonterminal_has_empty [OF assms(1)] assms(2) by (rule getAIMove_hard_reference)

lemma three_left_facts: "fst (checkWinner three_left) = None" "getEmptySquares three_left = [3, 5, 6]"
  by code_simp+

theorem hard_move_is_reference_choice_witness:
  "getAIMove 3 Hard 0 0 three_left = Some (Some (reference_choice three_left), three_left)"
  using hard_move_is_reference_choice [of three_left 3 0 0]
  by (simp add: three_left_facts)

lemma block_board_empties: "getEmptySquares block_board = [2, 3, 5, 6, 7, 8]"
  by code_simp

lemma block_board_loop:
  "best_loop (minimax 6) (getEmptySquares block_board) block_board NegInf
     (pick (getEmptySquares block_board) 0) = Some (Some 2, block_board)"
  by code_simp

text \<open>
  Claim C3. On the board \<^verbatim>\<open>[X,X,_, _,O,_, _,_,_]\<close> with the computer to move on the hard
  level, \<^verbatim>\<open>getAIMove\<close> returns index 2, which blocks the top row (given fuel for the
  six empty squares), and leaves the board as it was.
\<close>

theorem hard_blocks_row_0:
  assumes "6 \<le> fuel"
  shows "getAIMove fuel Hard r1 r2 block_board = Some (Some 2, block_board)"
proof -
  have ne: "getEmptySquares block_board \<noteq> []" "length (getEmptySquares block_board) = 6"
    by (simp_all add: block_board_empties)
  have "getAIMove 6 Hard r1 r2 block_board = Some (Some (reference_choice block_board), block_board)"
    using ne by (intro getAIMove_hard_reference) simp_all
  moreover have "getAIMove 6 Hard r1 r2 block_board = Some (Some 2, block_board)"
    by (simp add: getAIMove_def Let_def block_board_loop)
  moreover have "getAIMove fuel Hard r1 r2 block_board
                   = Some (Some (reference_choice block_board), block_board)"
    using ne assms by (intro getAIMove_hard_reference) simp_all
  ultimately show ?thesis by simp
qed

theorem hard_blocks_row_0_witness:
  "getAIMove 9 Hard 0 0 block_board = Some (Some 2, block_board)"
  using hard_blocks_row_0 [of 9 0 0] by simp

section \<open>Board game: clicks\<close>

lemma cell_at_store_same: "cell_at (store sq i v) i = v"
  by (auto simp: cell_at_def store_def nth_append)

lemma array_get_set_same: "array_get (array_set (spread a) k p) k = Mark p"
  by (simp add: array_get_def array_set_def spread_def cell_at_store_same)

lemma handleClick_accepted:
  assumes "winner g = None" and "\<not> truthy (array_get (board g) index)"
  shows "array_get (board (handleClick index g)) index = Mark (currentPlayer g)"
proof -
  let ?nb = "array_set (spread (board g)) index (currentPlayer g)"
  obtain w line where cw: "checkWinner (elems ?nb) = (w, line)"
    by (cases "checkWinner (elems ?nb)")
  have "board (handleClick index g) = ?nb"
    using assms by (cases w) (simp_all add: handleClick_def Let_def cw)
  then show ?thesis
    by (simp add: array_get_set_same)
qed

lemma click_9_facts:
  "store (replicate 9 Null) 9 (Mark PlayerX) = replicate 9 Null @ [Mark PlayerX]"
  "checkWinner (replicate 9 Null @ [Mark PlayerX]) = (None, None)"
  "cell_at (replicate 9 Null) 9 = Undefined"
  by code_simp+

text \<open>
  Claim C4 says that a click on an index outside 0..8 changes nothing. It fails: on the
  initial state, \<^verbatim>\<open>handleClick(9)\<close> finds \<^verbatim>\<open>board[9]\<close> undefined, stores \<^verbatim>\<open>X\<close> at
  index 9 of the copy (which grows to ten elements) and passes the turn to \<^verbatim>\<open>O\<close>.
\<close>

theorem out_of_range_click_changes_state:
  "elems (board (handleClick (Number 9) initial_game)) \<noteq> elems (board initial_game) \<and>
   currentPlayer (handleClick (Number 9) initial_game) \<noteq> currentPlayer initial_game"
  by (simp add: handleClick_def initial_game_def array_get_def array_set_def spread_def
      is_array_index_def index_of_def truthy_def click_9_facts Let_def)

text \<open>
  Claim C4, amended. \<^verbatim>\<open>handleClick\<close> has no range check: for an index outside 0..8 the
  click is a no-op exactly when the game is decided or the slot at that index already
  holds a mark (left by an earlier click there). Otherwise the state changes.
\<close>

theorem out_of_range_click:
  assumes "index < 0 \<or> 8 < index"
  shows "(handleClick (Number index) g = g) =
           (winner g \<noteq> None \<or> truthy (array_get (board g) (Number index)))"
proof
  assume same: "handleClick (Number index) g = g"
  show "winner g \<noteq> None \<or> truthy (array_get (board g) (Number index))"
  proof (rule ccontr)
    assume "\<not> (winner g \<noteq> None \<or> truthy (array_get (board g) (Number index)))"
    then have "winner g = None" "\<not> truthy (array_get (board g) (Number index))"
      by simp_all
    from handleClick_accepted [OF this] same
    have "array_get (board g) (Number index) = Mark (currentPlayer g)" by simp
    with \<open>\<not> truthy (array_get (board g) (Number index))\<close> show False
      by (simp add: truthy_def)
  qed
next
  assume "winner g \<noteq> None \<or> truthy (array_get (board g) (Number index))"
  then show "handleClick (Number index) g = g"
    by (auto simp: handleClick_def)
qed

theorem out_of_range_click_witness:
  "handleClick (Number 9) initial_game \<noteq> initial_game"
  using out_of_range_click [of 9 initial_game]
  by (simp add: initial_game_def array_get_def is_array_index_def index_of_def
      truthy_def click_9_facts)

section \<open>Board game: the hard level cannot be beaten\<close>

lemma handleClick_place:
  assumes "winner g = None" and "m \<in> set (getEmptySquares (elems (board g)))"
    and "length (elems (board g)) = 9"
  shows "elems (board (handleClick (Number (int m)) g))
           = store (elems (board g)) m (Mark (currentPlayer g))"
    and "gameMode (handleClick (Number (int m)) g) = gameMode g"
    and "difficulty (handleClick (Number (int m)) g) = difficulty g"
    and "winner (handleClick (Number (int m)) g)
           = fst (checkWinner (store (elems (board g)) m (Mark (currentPlayer g))))"
    and "fst (checkWinner (store (elems (board g)) m (Mark (currentPlayer g)))) = None \<Longrightarrow>
           currentPlayer (handleClick (Number (int m)) g)
             = (if currentPlayer g = PlayerX then PlayerO else PlayerX)"
proof -
  have m: "m < 9" "elems (board g) ! m = Null"
    using assms(2,3) by (simp_all add: getEmptySquares_iff)
  have idx: "is_array_index (Number (int m))" "index_of (Number (int m)) = m"
    using m(1) by (simp_all add: is_array_index_def index_of_def)
  have nt: "\<not> truthy (array_get (board g) (Number (int m)))"
    using m assms(3) by (simp add: array_get_def idx cell_at_def truthy_def)
  have nb: "elems (array_set (spread (board g)) (Number (int m)) p) = store (elems (board g)) m (Mark p)" for p
    by (simp add: array_set_def spread_def idx)
  obtain w line where cw: "checkWinner (store (elems (board g)) m (Mark (currentPlayer g))) = (w, line)"
    by (cases "checkWinner (store (elems (board g)) m (Mark (currentPlayer g)))")
  have eq: "handleClick (Number (int m)) g =
      (let newBoard = array_set (spread (board g)) (Number (int m)) (currentPlayer g) in
       case w of
         Some gameWinner \<Rightarrow>
            g\<lparr>board := newBoard, winner := Some gameWinner, winningLine := line,
              stats := updateStats gameWinner (stats g)\<rparr>
       | None \<Rightarrow>
            g\<lparr>board := newBoard,
              currentPlayer := (if currentPlayer g = PlayerX then PlayerO else PlayerX)\<rparr>)"
    using nt assms(1) by (simp add: handleClick_def Let_def nb cw split: option.splits)
  show "elems (board (handleClick (Number (int m)) g))
           = store (elems (board g)) m (Mark (currentPlayer g))"
    by (cases w) (simp_all add: eq Let_def nb)
  show "gameMode (handleClick (Number (int m)) g) = gameMode g"
    by (cases w) (simp_all add: eq Let_def)
  show "difficulty (handleClick (Number (int m)) g) = difficulty g"
    by (cases w) (simp_all add: eq Let_def)
  show "winner (handleClick (Number (int m)) g)
           = fst (checkWinner (store (elems (board g)) m (Mark (currentPlayer g))))"
    using assms(1) by (cases w) (simp_all add: eq Let_def cw)
  show "currentPlayer (handleClick (Number (int m)) g)
             = (if currentPlayer g = PlayerX then PlayerO else PlayerX)"
    if "fst (checkWinner (store (elems (board g)) m (Mark (currentPlayer g)))) = None"
    using that by (simp add: eq Let_def cw)
qed

lemma rv_terminal:
  "fst (checkWinner sq) = Some w \<Longrightarrow>
     reference_value sq d t =
       (case w of Winner PlayerO \<Rightarrow> 10 - d | Winner PlayerX \<Rightarrow> d - 10 | Draw \<Rightarrow> 0)"
  by (simp add: reference_value.simps [of sq] split: outcome.splits player.splits)

lemma rv_nonneg_max:
  assumes "fst (checkWinner sq) = None"
  shows "(0 \<le> reference_value sq d True) =
           (\<exists>m\<in>set (getEmptySquares sq). 0 \<le> reference_value (store sq m (Mark PlayerO)) (d + 1) False)"
proof -
  have "getEmptySquares sq \<noteq> []" using assms by (rule nonterminal_has_empty)
  then show ?thesis
    using assms by (simp add: reference_value.simps [of sq] Max_ge_iff)
qed

lemma rv_nonneg_min:
  assumes "fst (checkWinner sq) = None"
  shows "(0 \<le> reference_value sq d False) =
           (\<forall>m\<in>set (getEmptySquares sq). 0 \<le> reference_value (store sq m (Mark PlayerX)) (d + 1) True)"
proof -
  have "getEmptySquares sq \<noteq> []" using assms by (rule nonterminal_has_empty)
  then show ?thesis
    using assms by (simp add: reference_value.simps [of sq])
qed

lemma sign_depth:
  "d + int (length (getEmptySquares sq)) \<le> 9 \<Longrightarrow>
   d' + int (length (getEmptySquares sq)) \<le> 9 \<Longrightarrow>
   (0 \<le> reference_value sq d t) = (0 \<le> reference_value sq d' t)"
proof (induction "length (getEmptySquares sq)" arbitrary: sq d d' t rule: less_induct)
  case less
  show ?case
  proof (cases "fst (checkWinner sq)")
    case (Some w)
    with less.prems show ?thesis
      by (simp add: rv_terminal split: outcome.splits player.splits)
  next
    case None
    have step: "(0 \<le> reference_value (store sq m (Mark p)) (d + 1) t')
              = (0 \<le> reference_value (store sq m (Mark p)) (d' + 1) t')"
      if "m \<in> set (getEmptySquares sq)" for m p t'
    proof -
      have "length (getEmptySquares (store sq m (Mark p))) < length (getEmptySquares sq)"
        using that by (rule empties_store_mark)
      then show ?thesis
        using less.prems by (intro less.hyps) auto
    qed
    show ?thesis
      by (cases t) (simp_all add: rv_nonneg_max [OF None] rv_nonneg_min [OF None] step)
  qed
qed

lemma safe_all_sound:
  "safe_all rec sq ms \<Longrightarrow> m \<in> set ms \<Longrightarrow> cell_at sq m = Null \<Longrightarrow> rec (store sq m (Mark PlayerX))"
  by (induction ms) (auto split: if_splits)

lemma safe_ex_sound:
  "safe_ex rec sq ms \<Longrightarrow> \<exists>m\<in>set ms. cell_at sq m = Null \<and> rec (store sq m (Mark PlayerO))"
  by (induction ms) (auto split: if_splits)

lemma cell_at_Null_iff: "cell_at sq m = Null \<longleftrightarrow> m \<in> set (getEmptySquares sq)"
  by (simp add: cell_at_def getEmptySquares_iff)

lemma length_store_in_range: "m < length sq \<Longrightarrow> length (store sq m v) = length sq"
  by (simp add: store_def)

lemma empties_lt_length: "m \<in> set (getEmptySquares sq) \<Longrightarrow> m < length sq"
  by (simp add: getEmptySquares_iff)

lemma safe_search_sound:
  "safe_search n t sq \<Longrightarrow> length sq = 9 \<Longrightarrow> d + int (length (getEmptySquares sq)) \<le> 9 \<Longrightarrow>
     0 \<le> reference_value sq d t"
proof (induction n arbitrary: t sq d)
  case 0
  then show ?case by simp
next
  case (Suc n)
  show ?case
  proof (cases "fst (checkWinner sq)")
    case (Some w)
    with Suc.prems show ?thesis
      by (simp add: rv_terminal split: outcome.splits player.splits)
  next
    case None
    have sub: "0 \<le> reference_value (store sq m (Mark p)) (d + 1) t'"
      if "m \<in> set (getEmptySquares sq)" "safe_search n t' (store sq m (Mark p))" for m p t'
    proof -
      have "length (getEmptySquares (store sq m (Mark p))) < length (getEmptySquares sq)"
        using that(1) by (rule empties_store_mark)
      moreover have "length (store sq m (Mark p)) = 9"
        using length_store_in_range [OF empties_lt_length [OF that(1)]] Suc.prems(2) by simp
      ultimately show ?thesis
        using Suc.prems(3) that(2) by (intro Suc.IH) auto
    qed
    show ?thesis
    proof (cases t)
      case True
      with None Suc.prems(1) have "safe_ex (safe_search n False) sq ai_order" by simp
      then obtain m where "cell_at sq m = Null" "safe_search n False (store sq m (Mark PlayerO))"
        using safe_ex_sound by blast
      then show ?thesis
        using True sub by (auto simp: rv_nonneg_max [OF None] cell_at_Null_iff)
    next
      case False
      with None Suc.prems(1) have all: "safe_all (safe_search n True) sq human_order" by simp
      have "0 \<le> reference_value (store sq m (Mark PlayerX)) (d + 1) True"
        if m: "m \<in> set (getEmptySquares sq)" for m
      proof -
        have "m < 9" using m Suc.prems(2) by (simp add: getEmptySquares_iff)
        then have "m \<in> set human_order"
          unfolding human_order_def by (simp; presburger)
        with all m have "safe_search n True (store sq m (Mark PlayerX))"
          using safe_all_sound [of "safe_search n True" sq human_order m]
          by (simp add: cell_at_Null_iff)
        with m show ?thesis by (rule sub)
      qed
      then show ?thesis
        using False by (simp add: rv_nonneg_min [OF None])
    qed
  qed
qed

lemma reference_choice_best:
  assumes "getEmptySquares sq \<noteq> []"
  shows "reference_choice sq \<in> set (getEmptySquares sq)"
    and "m \<in> set (getEmptySquares sq) \<Longrightarrow>
           reference_value (store sq m (Mark PlayerO)) 0 False
             \<le> reference_value (store sq (reference_choice sq) (Mark PlayerO)) 0 False"
proof -
  let ?E = "set (getEmptySquares sq)"
  let ?v = "\<lambda>m. reference_value (store sq m (Mark PlayerO)) 0 False"
  let ?S = "{m \<in> ?E. ?v m = Max (?v ` ?E)}"
  have ne: "?E \<noteq> {}" using assms by simp
  have "Max (?v ` ?E) \<in> ?v ` ?E"
    using ne by (intro Max_in) auto
  then have "?S \<noteq> {}" by auto
  moreover have "finite ?S" by simp
  ultimately have "Min ?S \<in> ?S" by (rule Min_in [rotated])
  then have rc: "reference_choice sq \<in> ?S"
    by (simp add: reference_choice_def Let_def)
  then show "reference_choice sq \<in> ?E" by simp
  show "?v m \<le> ?v (reference_choice sq)" if "m \<in> ?E"
  proof -
    have "?v m \<le> Max (?v ` ?E)" using that by (intro Max_ge) auto
    with rc show ?thesis by simp
  qed
qed

lemma empties_le_length: "length (getEmptySquares sq) \<le> length sq"
  by (simp add: getEmptySquares_def) (metis diff_zero length_filter_le length_upt)

lemma store_mark_no_undefined:
  "m < length sq \<Longrightarrow> Undefined \<notin> set sq \<Longrightarrow> Undefined \<notin> set (store sq m (Mark p))"
  by (auto simp: store_def dest: set_update_subset_insert [THEN subsetD])

lemma hard_inv_click:
  assumes inv: "hard_inv g" and h: "0 \<le> h" "h \<le> 8"
  shows "hard_inv (click h r1 r2 g)"
proof (cases "winner g")
  case (Some w)
  then have "click h r1 r2 g = g"
    by (simp add: click_def handleClick_def aiTurn_def)
  with inv show ?thesis by simp
next
  case None
  let ?b = "elems (board g)"
  from inv None have g: "gameMode g = AI" "difficulty g = Hard" "currentPlayer g = PlayerX"
    "length ?b = 9" "Undefined \<notin> set ?b" "fst (checkWinner ?b) = None"
    "0 \<le> reference_value ?b 0 False"
    by (simp_all add: hard_inv_def)
  have idx: "is_array_index (Number h)" "index_of (Number h) = nat h" "nat h < 9"
    using h by (simp_all add: is_array_index_def index_of_def)
  show ?thesis
  proof (cases "truthy (array_get (board g) (Number h))")
    case True
    then have "click h r1 r2 g = g"
      using g(3) by (simp add: click_def handleClick_def aiTurn_def)
    with inv show ?thesis by simp
  next
    case False
    have "?b ! nat h \<in> set ?b" using idx(3) g(4) by simp
    with g(5) have "?b ! nat h \<noteq> Undefined" by metis
    with False have "?b ! nat h = Null"
      using idx g(4) by (cases "?b ! nat h") (simp_all add: array_get_def cell_at_def truthy_def)
    then have hm: "nat h \<in> set (getEmptySquares ?b)"
      using idx(3) g(4) by (simp add: getEmptySquares_iff)
    have num: "Number h = Number (int (nat h))" using h by simp
    let ?g1 = "handleClick (Number h) g"
    let ?b1 = "store ?b (nat h) (Mark PlayerX)"
    note p1 = handleClick_place [OF None hm g(4), folded num, unfolded g(3)]
    have b1_len: "length ?b1 = 9"
      using idx(3) g(4) by (simp add: length_store_in_range)
    have b1_def: "Undefined \<notin> set ?b1"
      using idx(3) g(4,5) by (simp add: store_mark_no_undefined)
    have v1: "0 \<le> reference_value ?b1 1 True"
      using g(7) hm by (simp add: rv_nonneg_min [OF g(6)])
    have n1: "length (getEmptySquares ?b1) < length (getEmptySquares ?b)"
      using hm by (rule empties_store_mark)
    have n0: "length (getEmptySquares ?b) \<le> 9"
      using empties_le_length [of ?b] g(4) by simp
    show ?thesis
    proof (cases "fst (checkWinner ?b1)")
      case (Some w)
      have "w \<noteq> Winner PlayerX"
        using v1 by (auto simp: rv_terminal [OF Some])
      moreover have "winner ?g1 = Some w" using p1(4) Some by simp
      moreover have "click h r1 r2 g = ?g1"
        using \<open>winner ?g1 = Some w\<close> by (simp add: click_def aiTurn_def)
      ultimately show ?thesis
        using p1(2,3) g(1,2) by (simp add: hard_inv_def)
    next
      case n: None
      have w1: "winner ?g1 = None" using p1(4) n by simp
      have c1: "currentPlayer ?g1 = PlayerO" using p1(5) n by simp
      have ne1: "getEmptySquares ?b1 \<noteq> []" using n by (rule nonterminal_has_empty)
      let ?m = "reference_choice ?b1"
      let ?b2 = "store ?b1 ?m (Mark PlayerO)"
      have ai: "getAIMove (length (getEmptySquares ?b1)) Hard r1 r2 ?b1 = Some (Some ?m, ?b1)"
        using ne1 by (intro getAIMove_hard_reference) simp_all
      have click_eq: "click h r1 r2 g = handleClick (Number (int ?m)) ?g1"
        using w1 c1 p1(1,2,3) g(1,2) ai by (simp add: click_def aiTurn_def)
      have mm: "?m \<in> set (getEmptySquares ?b1)"
        using ne1 by (rule reference_choice_best(1))
      have g1_len: "length (elems (board ?g1)) = 9" using p1(1) b1_len by simp
      have mm': "?m \<in> set (getEmptySquares (elems (board ?g1)))" using mm p1(1) by simp
      note p2 = handleClick_place [OF w1 mm' g1_len, unfolded c1 p1(1)]
      have m_lt: "?m < length ?b1" using mm by (rule empties_lt_length)
      have b2_len: "length ?b2 = 9"
        using m_lt b1_len by (simp add: length_store_in_range)
      have b2_def: "Undefined \<notin> set ?b2"
        using m_lt b1_def by (simp add: store_mark_no_undefined)
      obtain m' where m': "m' \<in> set (getEmptySquares ?b1)"
          "0 \<le> reference_value (store ?b1 m' (Mark PlayerO)) 2 False"
        using v1 by (auto simp: rv_nonneg_max [OF n])
      have "length (getEmptySquares (store ?b1 m' (Mark PlayerO))) < length (getEmptySquares ?b1)"
        using m'(1) by (rule empties_store_mark)
      with n1 n0 have "2 + int (length (getEmptySquares (store ?b1 m' (Mark PlayerO)))) \<le> 9"
          "0 + int (length (getEmptySquares (store ?b1 m' (Mark PlayerO)))) \<le> 9"
        by simp_all
      from sign_depth [OF this] m'(2)
      have "0 \<le> reference_value (store ?b1 m' (Mark PlayerO)) 0 False" by simp
      also have "\<dots> \<le> reference_value ?b2 0 False"
        using ne1 m'(1) by (rule reference_choice_best(2))
      finally have v2: "0 \<le> reference_value ?b2 0 False" .
      show ?thesis
      proof (cases "fst (checkWinner ?b2)")
        case (Some w)
        have "w \<noteq> Winner PlayerX"
          using v2 by (auto simp: rv_terminal [OF Some])
        then show ?thesis
          using p2(2,3,4) p1(2,3) g(1,2) Some by (simp add: click_eq hard_inv_def)
      next
        case None
        then show ?thesis
          using p2(1,2,3,4) p2(5) [OF None] p1(2,3) g(1,2) b2_len b2_def v2
          by (simp add: click_eq hard_inv_def)
      qed
    qed
  qed
qed

lemma hard_inv_play:
  "hard_inv g \<Longrightarrow> \<forall>x\<in>set moves. 0 \<le> fst x \<and> fst x \<le> 8 \<Longrightarrow> hard_inv (play moves g)"
proof (induction moves arbitrary: g)
  case Nil
  then show ?case by simp
next
  case (Cons x moves)
  obtain h r1 r2 where x: "x = (h, r1, r2)" by (cases x)
  with Cons.prems have "hard_inv (click h r1 r2 g)"
    by (intro hard_inv_click) simp_all
  with Cons.prems x show ?case
    by (simp add: Cons.IH)
qed

lemma checkWinner_empty: "fst (checkWinner (replicate 9 Null)) = None"
  by code_simp

lemma safe_from_empty: "safe_search 10 False (replicate 9 Null)"
  by code_simp

lemma hard_inv_start: "hard_inv hard_start"
proof -
  have "length (getEmptySquares (replicate 9 Null)) \<le> 9"
    using empties_le_length [of "replicate 9 Null"] by simp
  then have "0 \<le> reference_value (replicate 9 Null) 0 False"
    using safe_from_empty by (intro safe_search_sound [where n = 10]) simp_all
  then show ?thesis
    by (simp add: hard_inv_def hard_start_def selectDifficulty_def selectGameMode_def
        resetGame_def checkWinner_empty)
qed

text \<open>
  Claim C1. Against the computer on the hard level, from the empty board with the human
  (\<^verbatim>\<open>X\<close>) moving first, after any sequence of clicks on cells 0..8, each answered by
  the computer's move when the game goes on, the winner is never \<^verbatim>\<open>X\<close>: the game is
  undecided, drawn or won by \<^verbatim>\<open>O\<close>.
\<close>

theorem hard_ai_never_loses:
  assumes "\<forall>x\<in>set moves. 0 \<le> fst x \<and> fst x \<le> 8"
  shows "winner (play moves hard_start) \<in> {None, Some Draw, Some (Winner PlayerO)}"
proof -
  have "hard_inv (play moves hard_start)"
    using hard_inv_start assms by (rule hard_inv_play)
  then have ne: "winner (play moves hard_start) \<noteq> Some (Winner PlayerX)"
    by (simp add: hard_inv_def)
  show ?thesis
  proof (cases "winner (play moves hard_start)")
    case None
    then show ?thesis by simp
  next
    case (Some w)
    with ne have "w \<noteq> Winner PlayerX" by simp
    then have "w = Draw \<or> w = Winner PlayerO"
      by (cases w) (auto intro: player.exhaust)
    with Some show ?thesis by auto
  qed
qed

theorem hard_ai_never_loses_witness:
  "winner (play [(4, 0, 0), (0, 0, 0), (8, 0, 0)] hard_start)
     \<in> {None, Some Draw, Some (Winner PlayerO)}"
  using hard_ai_never_loses [of "[(4, 0, 0), (0, 0, 0), (8, 0, 0)]"]
  by simp

section \<open>Snake: ticks\<close>

lemma js_rem_range: "0 \<le> a \<Longrightarrow> 0 \<le> js_rem a 20 \<and> js_rem a 20 < 20"
  by (simp add: js_rem_def sgn_if)

lemma list_ex_position:
  "list_ex (\<lambda>segment. px segment = px p \<and> py segment = py p) xs \<longleftrightarrow> p \<in> set xs"
proof -
  have "(px segment = px p \<and> py segment = py p) = (segment = p)" for segment
    by (auto intro: position.expand)
  then show ?thesis by (simp add: list_ex_iff)
qed

text \<open>
  Claim C7 says that a tick whose new head lies on the food lengthens the snake by one.
  It fails when that cell is also a segment of the snake: the collision test comes
  first, the game is over and the snake keeps its two segments.
\<close>

lemma snake_on_food_reached:
  "Option.bind (moveSnake (11 / 20) (1 / 2) (snake_resetGame (11 / 20) (1 / 2) snake_initial))
     (\<lambda>s. map_option
            (\<lambda>s. snake_setDirection (Pos (- 1) 0) (snake_setDirection (Pos 0 (- 1)) s))
            (moveSnake 0 0 s))
   = Some snake_on_food"
  by (simp add: snake_on_food_def snake_initial_def snake_resetGame_def snake_setDirection_def
      moveSnake_def newHead_def js_rem_def generateFood_def GRID_SIZE_def INITIAL_SNAKE_def
      INITIAL_DIRECTION_def)

theorem snake_food_on_segment:
  "\<not> snakeOver snake_on_food \<and> \<not> isPaused snake_on_food \<and>
   newHead snake_on_food (hd (snake snake_on_food)) = food snake_on_food \<and>
   map_option (\<lambda>s. length (snake s)) (moveSnake 0 0 snake_on_food) = Some 2 \<and>
   length (snake snake_on_food) = 2"
  by (simp add: snake_on_food_def moveSnake_def newHead_def js_rem_def GRID_SIZE_def)

text \<open>
  Claim C7, amended. In a state that is neither over nor paused, with the head inside
  the grid and the direction one of the four arrows, a tick returns a state in which:
  the number of segments is unchanged when the new head is not on the food; it is one
  more when the new head is on the food and on no segment; when the new head is on a
  segment the game is over and the segments are unchanged; and the head is inside the
  grid.
\<close>

theorem snake_tick:
  assumes "\<not> snakeOver s" and "\<not> isPaused s" and "snake s = h # rest"
    and "0 \<le> px h" "px h < GRID_SIZE" "0 \<le> py h" "py h < GRID_SIZE"
    and "snakeDirection s \<in> arrow_directions"
  shows "\<exists>s'. moveSnake r1 r2 s = Some s' \<and>
           (newHead s h \<noteq> food s \<longrightarrow> length (snake s') = length (snake s)) \<and>
           (newHead s h = food s \<and> newHead s h \<notin> set (snake s) \<longrightarrow>
              length (snake s') = length (snake s) + 1) \<and>
           (newHead s h \<in> set (snake s) \<longrightarrow> snakeOver s' \<and> snake s' = snake s) \<and>
           0 \<le> px (hd (snake s')) \<and> px (hd (snake s')) < GRID_SIZE \<and>
           0 \<le> py (hd (snake s')) \<and> py (hd (snake s')) < GRID_SIZE"
proof -
  have dir: "- 1 \<le> px (snakeDirection s)" "- 1 \<le> py (snakeDirection s)"
    using assms(8) by (auto simp: arrow_directions_def)
  have nh: "0 \<le> px (newHead s h)" "px (newHead s h) < 20"
    "0 \<le> py (newHead s h)" "py (newHead s h) < 20"
    using assms(4,6) dir
    by (simp_all add: newHead_def GRID_SIZE_def js_rem_range)
  have food_eq: "(px (newHead s h) = px (food s) \<and> py (newHead s h) = py (food s))
                   = (newHead s h = food s)"
    by (auto simp: position.expand)
  show ?thesis
  proof (cases "newHead s h \<in> set (snake s)")
    case True
    then show ?thesis
      using assms(1-7) by (simp add: moveSnake_def list_ex_position GRID_SIZE_def)
  next
    case False
    then show ?thesis
      using assms(1-3) nh
      by (cases "newHead s h = food s")
         (simp_all add: moveSnake_def list_ex_position food_eq GRID_SIZE_def)
  qed
qed

theorem snake_tick_witness:
  "\<exists>s'. moveSnake 0 0 snake_initial = Some s' \<and> length (snake s') = 1 \<and>
     hd (snake s') = Pos 11 10"
  using snake_tick [of snake_initial "Pos 10 10" "[]" 0 0]
  by (simp add: snake_initial_def INITIAL_SNAKE_def INITIAL_DIRECTION_def GRID_SIZE_def
      arrow_directions_def newHead_def js_rem_def moveSnake_def)

section \<open>Maze chase: nobody stands on a wall\<close>

lemma movePacman_off_wall: "\<not> isWall current \<Longrightarrow> \<not> isWall (movePacman d current)"
  by (simp add: movePacman_def Let_def)

lemma pick_position_in_set: "pick_position xs k = Some p \<Longrightarrow> p \<in> set xs"
  by (auto simp: pick_position_def split: if_splits)

lemma movePacman_stays_or_free: "movePacman d p = p \<or> \<not> isWall (movePacman d p)"
  by (simp add: movePacman_def Let_def)

lemma moveGhost_stays_or_free: "moveGhost r ghost = ghost \<or> \<not> isWall (moveGhost r ghost)"
proof -
  define moves where "moves = filter (\<lambda>pos. \<not> isWall pos)
              [Pos (px ghost + 1) (py ghost), Pos (px ghost - 1) (py ghost),
               Pos (px ghost) (py ghost + 1), Pos (px ghost) (py ghost - 1)]"
  have free: "\<not> isWall p" if "p \<in> set moves" for p
    using that unfolding moves_def set_filter by blast
  have eq: "moveGhost r ghost =
      (case pick_position moves \<lfloor>r * of_nat (length moves)\<rfloor> of
         Some randomMove \<Rightarrow> randomMove | None \<Rightarrow> ghost)"
    by (simp add: moveGhost_def Let_def moves_def)
  show ?thesis
  proof (cases "pick_position moves \<lfloor>r * of_nat (length moves)\<rfloor>")
    case None
    then show ?thesis by (simp add: eq)
  next
    case (Some p)
    then have "p \<in> set moves" by (rule pick_position_in_set)
    then have "\<not> isWall p" by (rule free)
    with Some show ?thesis by (simp add: eq)
  qed
qed

lemma moveGhost_off_wall: "\<not> isWall ghost \<Longrightarrow> \<not> isWall (moveGhost r ghost)"
  using moveGhost_stays_or_free [of r ghost] by auto

lemma moveGhosts_off_walls:
  "list_all (\<lambda>ghost. \<not> isWall ghost) gs \<Longrightarrow> list_all (\<lambda>ghost. \<not> isWall ghost) (moveGhosts rnd gs)"
  by (auto simp: moveGhosts_def list_all_iff in_set_enumerate_eq moveGhost_off_wall)

lemma collisions_positions: "pacman (collisions s) = pacman s" "ghosts (collisions s) = ghosts s"
  by (simp_all add: collisions_def Let_def split: option.splits)

lemma initial_off_walls:
  "\<not> isWall INITIAL_PACMAN" "list_all (\<lambda>ghost. \<not> isWall ghost) INITIAL_GHOSTS"
  by code_simp+

text \<open>
  Claim C8. Neither the player nor any ghost is ever on a wall cell: this holds in the
  initial state, and every tick (whatever the ghosts draw), arrow key and reset keeps
  it. The player's step either leaves the player in place or ends on a cell that is
  not a wall, and so does each ghost's.
\<close>

theorem chase_off_walls:
  "off_walls pacman_initial \<and> (off_walls s \<longrightarrow> off_walls (pacman_step e s)) \<and>
   (movePacman d p = p \<or> \<not> isWall (movePacman d p)) \<and>
   (moveGhost r ghost = ghost \<or> \<not> isWall (moveGhost r ghost))"
proof (intro conjI)
  show "movePacman d p = p \<or> \<not> isWall (movePacman d p)"
    by (rule movePacman_stays_or_free)
  show "moveGhost r ghost = ghost \<or> \<not> isWall (moveGhost r ghost)"
    by (rule moveGhost_stays_or_free)
  show "off_walls pacman_initial"
    by (simp add: off_walls_def pacman_initial_def collisions_positions initial_off_walls)
  show "off_walls s \<longrightarrow> off_walls (pacman_step e s)"
  proof
    assume s: "off_walls s"
    show "off_walls (pacman_step e s)"
    proof (cases e)
      case (Tick rnd)
      with s show ?thesis
        by (simp add: off_walls_def pacman_tick_def collisions_positions
            movePacman_off_wall moveGhosts_off_walls)
    next
      case (Key d)
      with s show ?thesis by (simp add: off_walls_def pacman_setDirection_def)
    next
      case Reset
      then show ?thesis
        by (simp add: off_walls_def pacman_resetGame_def collisions_positions initial_off_walls)
    qed
  qed
qed

theorem chase_off_walls_witness:
  "off_walls pacman_initial \<and> off_walls (pacman_step (Tick (\<lambda>i. 1 / 2)) pacman_initial)"
  using chase_off_walls [of pacman_initial "Tick (\<lambda>i. 1 / 2)"]
  by simp

section \<open>Word guessing: guesses and scores\<close>

text \<open>
  Claim C5 says that guessing a letter again changes nothing. It fails for a letter that
  is not in the word: \<^verbatim>\<open>guessLetter\<close> only tests the status, so the second Z costs another
  try.
\<close>

lemma jaws_after_z_reached:
  "hangman_step (GuessLetter (CHR ''Z''))
     (hangman_step (SelectCategory Movies (3 / 5)) hangman_initial) = jaws_after_z"
  by (simp add: jaws_after_z_def hangman_initial_def selectCategory_def initializeGame_def
      guessLetter_def WORD_LIST_def MAX_TRIES_def Let_def)

theorem reguess_wrong_letter_costs_a_try:
  "gameStatus jaws_after_z = Playing \<and> CHR ''Z'' \<in> guessedLetters jaws_after_z \<and>
   remainingTries jaws_after_z = 5 \<and>
   remainingTries (guessLetter (CHR ''Z'') jaws_after_z) = 4"
  by (simp add: jaws_after_z_def guessLetter_def Let_def)

text \<open>
  Claim C5, amended. In a playing state, guessing again a letter that is in the word
  (the word not being complete) is a no-op. \<^verbatim>\<open>guessLetter\<close> does not look whether the
  letter was guessed before (the on-screen keyboard disables guessed letters), so
  guessing again a letter that is not in the word leaves the guessed letters and the
  score as they are and takes one more try.
\<close>

theorem reguess:
  assumes "gameStatus s = Playing" and "ch \<in> guessedLetters s"
  shows "(ch \<in> set (word (currentWord s)) \<and>
          \<not> list_all (\<lambda>c. c \<in> guessedLetters s) (word (currentWord s))
            \<longrightarrow> guessLetter ch s = s) \<and>
         (ch \<notin> set (word (currentWord s))
            \<longrightarrow> guessedLetters (guessLetter ch s) = guessedLetters s \<and>
                score (guessLetter ch s) = score s \<and>
                remainingTries (guessLetter ch s) = remainingTries s - 1)"
proof -
  have "insert ch (guessedLetters s) = guessedLetters s"
    using assms(2) by auto
  then show ?thesis
    using assms(1) by (simp add: guessLetter_def Let_def)
qed

theorem reguess_witness:
  "guessLetter (CHR ''Z'') jaws_after_z = jaws_after_z\<lparr>remainingTries := 4\<rparr>"
  using reguess [of jaws_after_z "CHR ''Z''"]
  by (simp add: jaws_after_z_def guessLetter_def Let_def)

text \<open>
  Claim C10. The high score is never below the score: this holds in the initial state
  and every operation (a guess, a new game, a change of category, the reset of the
  statistics) keeps it.
\<close>

theorem high_score_bounds_score:
  "score hangman_initial \<le> highScore hangman_initial \<and>
   (score s \<le> highScore s \<longrightarrow> score (hangman_step e s) \<le> highScore (hangman_step e s))"
proof
  show "score hangman_initial \<le> highScore hangman_initial"
    by (simp add: hangman_initial_def)
  show "score s \<le> highScore s \<longrightarrow> score (hangman_step e s) \<le> highScore (hangman_step e s)"
    by (cases e)
       (simp_all add: guessLetter_def initializeGame_def selectCategory_def
          hangman_resetStats_def Let_def)
qed

theorem high_score_bounds_score_witness:
  "score (hangman_step (GuessLetter (CHR ''J'')) hangman_initial)
     \<le> highScore (hangman_step (GuessLetter (CHR ''J'')) hangman_initial)"
  using high_score_bounds_score [of hangman_initial "GuessLetter (CHR ''J'')"]
  by (simp add: hangman_initial_def)

section \<open>Word guessing: rounding to doubles\<close>

lemma two_powi_pos: "0 < (2::rat) powi k"
  by simp

lemma two_powi_add: "(2::rat) powi (a + b) = 2 powi a * 2 powi b"
  by (simp add: power_int_add)

lemma two_powi_le: "a \<le> b \<Longrightarrow> (2::rat) powi a \<le> 2 powi b"
  by (rule power_int_increasing) simp_all

lemma two_powi_less_imp: "(2::rat) powi a < 2 powi b \<Longrightarrow> a < b"
  by (rule ccontr) (use two_powi_le [of b a] in simp)

lemma two_powi_nat: "0 \<le> k \<Longrightarrow> (2::rat) powi k = of_int (2 ^ nat k)"
  by (simp add: power_int_nonneg_exp)

lemma bitlen_rat_bounds:
  assumes "0 < p"
  shows "(2::rat) powi (bitlen p - 1) \<le> of_int p" and "of_int p < (2::rat) powi (bitlen p)"
proof -
  have a1: "1 \<le> bitlen p"
    using assms bitlen_eq_zero_iff [of p] bitlen_nonneg [of p] by linarith
  have e1: "(2::rat) powi (bitlen p - 1) = of_int (2 ^ nat (bitlen p - 1))"
    by (rule two_powi_nat) (use a1 in simp)
  have e2: "(2::rat) powi (bitlen p) = of_int (2 ^ nat (bitlen p))"
    by (rule two_powi_nat) (use a1 in simp)
  from bitlen_bounds [OF assms]
  have "2 ^ nat (bitlen p - 1) \<le> p" and "p < 2 ^ nat (bitlen p)" by blast+
  then show "(2::rat) powi (bitlen p - 1) \<le> of_int p" and "of_int p < (2::rat) powi (bitlen p)"
    unfolding e1 e2 by (simp_all only: of_int_le_iff of_int_less_iff)
qed

lemma binary_exponent_bounds:
  assumes "0 < v"
  shows "2 powi (binary_exponent v) \<le> v \<and> v < 2 powi (binary_exponent v + 1)"
proof -
  obtain p q where pq: "quotient_of v = (p, q)" by (cases "quotient_of v")
  have q: "0 < q" using pq by (rule quotient_of_denom_pos)
  have v: "v = of_int p / of_int q" using pq by (rule quotient_of_div)
  have qpos: "(0::rat) < of_int q" using q by simp
  have "(0::rat) < of_int p"
    using assms qpos unfolding v by (simp only: zero_less_divide_iff) auto
  then have p: "0 < p" by simp
  define a where "a = bitlen p"
  define b where "b = bitlen q"
  note pb = bitlen_rat_bounds [OF p, folded a_def]
  note qb = bitlen_rat_bounds [OF q, folded b_def]
  have vq: "v * of_int q = of_int p"
    using qpos by (simp add: v)
  have up: "v < 2 powi (a - b + 1)"
  proof -
    have "v * of_int q < (2::rat) powi a" using pb(2) by (simp only: vq)
    also have "\<dots> = 2 powi (a - b + 1) * 2 powi (b - 1)"
      using two_powi_add [of "a - b + 1" "b - 1"] by simp
    also have "\<dots> \<le> 2 powi (a - b + 1) * of_int q"
      using qb(1) by (intro mult_left_mono) simp_all
    finally show ?thesis
      using qpos by (simp only: mult_less_cancel_right_pos)
  qed
  have lo: "2 powi (a - b - 1) < v"
  proof -
    have "2 powi (a - b - 1) * of_int q < 2 powi (a - b - 1) * (2::rat) powi b"
      using qb(2) by (intro mult_strict_left_mono) simp_all
    also have "\<dots> = 2 powi (a - 1)"
      using two_powi_add [of "a - b - 1" b] by simp
    also have "\<dots> \<le> v * of_int q" using pb(1) by (simp only: vq)
    finally show ?thesis
      using qpos by (simp only: mult_less_cancel_right_pos)
  qed
  have be: "binary_exponent v = (if v < 2 powi (a - b) then a - b - 1 else a - b)"
    by (simp add: binary_exponent_def pq a_def b_def Let_def)
  show ?thesis
  proof (cases "v < 2 powi (a - b)")
    case True
    with lo show ?thesis by (simp add: be)
  next
    case False
    with up show ?thesis by (simp add: be)
  qed
qed

lemma round_half_even_error: "\<bar>of_int (round_half_even v) - v\<bar> \<le> 1 / 2"
proof -
  have "of_int \<lfloor>v\<rfloor> \<le> v" "v < of_int \<lfloor>v\<rfloor> + 1" by linarith+
  then show ?thesis
    by (auto simp: round_half_even_def Let_def)
qed

lemma round_half_even_near:
  assumes "\<bar>v - of_int n\<bar> < 1 / 2"
  shows "round_half_even v = n"
proof -
  have "\<bar>of_int (round_half_even v) - v\<bar> \<le> 1 / 2" by (rule round_half_even_error)
  with assms have "\<bar>(of_int (round_half_even v) :: rat) - of_int n\<bar> < 1" by linarith
  then have "\<bar>(of_int (round_half_even v - n) :: rat)\<bar> < 1" by simp
  then have "\<bar>round_half_even v - n\<bar> < 1"
    by (metis of_int_abs of_int_less_1_iff)
  then show ?thesis by linarith
qed

lemma round_half_even_of_int: "round_half_even (of_int n) = n"
  by (rule round_half_even_near) simp

lemma round_half_even_ge:
  assumes "of_int n \<le> v"
  shows "n \<le> round_half_even v"
proof -
  have "n \<le> \<lfloor>v\<rfloor>" using assms by (simp add: le_floor_iff)
  moreover have "\<lfloor>v\<rfloor> \<le> round_half_even v"
    by (simp add: round_half_even_def Let_def)
  ultimately show ?thesis by linarith
qed

text \<open>The spacing of the doubles around a positive value.\<close>

lemma to_double_pos:
  "0 < v \<Longrightarrow> to_double v =
     of_int (round_half_even (v / 2 powi (binary_exponent v - 52))) * 2 powi (binary_exponent v - 52)"
  by (simp add: to_double_def Let_def)

lemma abs_scaled:
  fixes u :: rat
  assumes "0 < u"
  shows "\<bar>a * u - v\<bar> = \<bar>a - v / u\<bar> * u"
proof -
  have "a * u - v = (a - v / u) * u"
    using assms by (simp add: field_simps)
  then show ?thesis
    using assms by (simp add: abs_mult)
qed

lemma two_powi_half: "(2::rat) powi (k - 53) = 2 powi (k - 52) / 2"
  using two_powi_add [of "k - 53" 1] by simp

lemma to_double_error:
  assumes "0 < v"
  shows "\<bar>to_double v - v\<bar> \<le> v * 2 powi (- 53)"
proof -
  let ?u = "(2::rat) powi (binary_exponent v - 52)"
  have u: "0 < ?u" by simp
  have "\<bar>to_double v - v\<bar> = \<bar>of_int (round_half_even (v / ?u)) - v / ?u\<bar> * ?u"
    unfolding to_double_pos [OF assms] using u by (rule abs_scaled)
  also have "\<dots> \<le> (1 / 2) * ?u"
    using round_half_even_error [of "v / ?u"] u by (intro mult_right_mono) simp_all
  also have "\<dots> = 2 powi (binary_exponent v) * 2 powi (- 53)"
    using two_powi_add [of "binary_exponent v" "- 53"] two_powi_half [of "binary_exponent v"]
    by simp
  also have "\<dots> \<le> v * 2 powi (- 53)"
    using binary_exponent_bounds [OF assms] by (intro mult_right_mono) simp_all
  finally show ?thesis .
qed

lemma to_double_grid:
  assumes "0 < v" and "v = of_int n * 2 powi (binary_exponent v - 52)"
  shows "to_double v = v"
proof -
  let ?u = "(2::rat) powi (binary_exponent v - 52)"
  have "v / ?u = of_int n" using assms(2) by (simp add: field_simps)
  then show ?thesis
    using assms(2) by (simp add: to_double_pos [OF assms(1)] round_half_even_of_int)
qed

lemma to_double_ge_grid:
  assumes "0 < v" and "w = of_int n * 2 powi (binary_exponent v - 52)" and "w \<le> v"
  shows "w \<le> to_double v"
proof -
  let ?u = "(2::rat) powi (binary_exponent v - 52)"
  have u: "0 < ?u" by simp
  have "of_int n \<le> v / ?u"
    using assms(2,3) u by (simp add: pos_le_divide_eq del: zero_less_power_int)
  then have "n \<le> round_half_even (v / ?u)" by (rule round_half_even_ge)
  then have "(of_int n :: rat) * ?u \<le> of_int (round_half_even (v / ?u)) * ?u"
    using u by (intro mult_right_mono) simp_all
  then show ?thesis
    by (simp add: to_double_pos [OF assms(1)] assms(2))
qed

lemma to_double_near_grid:
  assumes "0 < v" and "w = of_int n * 2 powi (binary_exponent v - 52)"
    and "\<bar>v - w\<bar> < 2 powi (binary_exponent v - 53)"
  shows "to_double v = w"
proof -
  let ?u = "(2::rat) powi (binary_exponent v - 52)"
  have u: "0 < ?u" by simp
  have half: "(2::rat) powi (binary_exponent v - 53) = ?u / 2"
    by (rule two_powi_half)
  have "\<bar>of_int n * ?u - v\<bar> = \<bar>of_int n - v / ?u\<bar> * ?u"
    using u by (rule abs_scaled)
  then have "\<bar>v / ?u - of_int n\<bar> * ?u = \<bar>v - w\<bar>"
    by (simp add: assms(2) abs_minus_commute)
  also have "\<dots> < (1 / 2) * ?u"
    using assms(3) by (simp add: half)
  finally have "\<bar>v / ?u - of_int n\<bar> < 1 / 2"
    using u by (simp only: mult_less_cancel_right_pos)
  then have "round_half_even (v / ?u) = n" by (rule round_half_even_near)
  then show ?thesis
    by (simp add: to_double_pos [OF assms(1)] assms(2))
qed

lemma grid_coarser:
  fixes w :: rat
  assumes "w = of_int m * 2 powi j" and "e - 52 \<le> j"
  shows "\<exists>n. w = of_int n * 2 powi (e - 52)"
proof -
  have "(2::rat) powi j = 2 powi (j - (e - 52)) * 2 powi (e - 52)"
    using two_powi_add [of "j - (e - 52)" "e - 52"] by simp
  also have "(2::rat) powi (j - (e - 52)) = of_int (2 ^ nat (j - (e - 52)))"
    by (rule two_powi_nat) (use assms(2) in simp)
  finally have "w = of_int (m * 2 ^ nat (j - (e - 52))) * 2 powi (e - 52)"
    by (simp add: assms(1))
  then show ?thesis by blast
qed

lemma exponent_below:
  assumes "0 < v" and "v < 2 powi k"
  shows "binary_exponent v < k"
proof -
  have "2 powi (binary_exponent v) \<le> v"
    using binary_exponent_bounds [OF assms(1)] by simp
  with assms(2) have "(2::rat) powi (binary_exponent v) < 2 powi k" by simp
  then show ?thesis by (rule two_powi_less_imp)
qed

lemma exponent_at_least:
  assumes "0 < v" and "2 powi k \<le> v"
  shows "k \<le> binary_exponent v"
proof -
  have "v < 2 powi (binary_exponent v + 1)"
    using binary_exponent_bounds [OF assms(1)] by simp
  with assms(2) have "(2::rat) powi k < 2 powi (binary_exponent v + 1)" by simp
  then have "k < binary_exponent v + 1" by (rule two_powi_less_imp)
  then show ?thesis by simp
qed

lemma to_double_zero: "to_double 0 = 0"
  by (simp add: to_double_def)

lemma to_double_dyadic:
  assumes "0 \<le> v" and "v = of_int m * 2 powi j" and "v < 2 powi (53 + j)"
  shows "to_double v = v"
proof (cases "v = 0")
  case True
  then show ?thesis by (simp add: to_double_zero)
next
  case False
  with assms(1) have pos: "0 < v" by simp
  have "binary_exponent v < 53 + j" using pos assms(3) by (rule exponent_below)
  then have "binary_exponent v - 52 \<le> j" by simp
  with assms(2) obtain n where "v = of_int n * 2 powi (binary_exponent v - 52)"
    using grid_coarser by blast
  with pos show ?thesis by (rule to_double_grid)
qed

lemma to_double_int:
  assumes "0 \<le> n" and "n < 2 ^ 53"
  shows "to_double (of_int n) = of_int n"
proof (rule to_double_dyadic [where m = n and j = 0])
  show "(0::rat) \<le> of_int n" using assms(1) by simp
  show "(of_int n :: rat) = of_int n * 2 powi 0" by simp
  have "(of_int n :: rat) < of_int (2 ^ 53)" using assms(2) by (simp only: of_int_less_iff)
  then show "(of_int n :: rat) < 2 powi (53 + 0)" by simp
qed

text \<open>Rounding a value close to a multiple of one sixth.\<close>

lemma round_near_sixth:
  fixes N :: int and P :: rat
  assumes close: "\<bar>P - of_int N / 6\<bar> < 1 / 6"
    and half: "(N + 3) mod 6 = 0 \<Longrightarrow> of_int N / 6 \<le> P"
  shows "Math_round P = round (of_int N / 6 :: rat)"
proof -
  define n where "n = (N + 3) div 6"
  define j where "j = (N + 3) mod 6"
  have j: "0 \<le> j" "j \<le> 5" by (simp_all add: j_def)
  have N: "N = 6 * n + j - 3" by (simp add: n_def j_def)
  have Nr: "(of_int N :: rat) = 6 * of_int n + of_int j - 3"
    by (simp add: N)
  have jr: "(0::rat) \<le> of_int j" "(of_int j :: rat) \<le> 5"
    using j by simp_all
  have exact: "round (of_int N / 6 :: rat) = n"
  proof -
    have "of_int N / 6 + 1 / 2 = (of_int n :: rat) + of_int j / 6"
      by (simp add: Nr field_simps)
    moreover have "\<lfloor>(of_int n :: rat) + of_int j / 6\<rfloor> = n"
      using jr by (intro floor_unique) simp_all
    ultimately show ?thesis by (simp add: round_def)
  qed
  have c1: "of_int N / 6 - 1 / 6 < P" and c2: "P < of_int N / 6 + 1 / 6"
    using close by linarith+
  have Nd: "of_int N / 6 = (of_int n :: rat) + of_int j / 6 - 1 / 2"
    by (simp add: Nr field_simps)
  have lower: "of_int n \<le> P + 1 / 2"
  proof (cases "j = 0")
    case True
    then have "of_int N / 6 \<le> P" using half by (simp add: j_def)
    then show ?thesis using True Nd by simp
  next
    case False
    with j have "1 \<le> j" by simp
    then have "(1::rat) \<le> of_int j" by simp
    with c1 Nd show ?thesis by linarith
  qed
  have upper: "P + 1 / 2 < of_int n + 1"
    using c2 Nd jr by linarith
  from lower upper have "\<lfloor>P + 1 / 2\<rfloor> = n" by (rule floor_unique)
  with exact show ?thesis by (simp add: Math_round_def)
qed

text \<open>The doubles nearest to the sixths, \<^verbatim>\<open>remainingTries / MAX_TRIES\<close>.\<close>

lemma sixths:
  "div_double 0 6 = 0"
  "div_double 1 6 = 6004799503160661 / 36028797018963968"
  "div_double 2 6 = 6004799503160661 / 18014398509481984"
  "div_double 3 6 = 1 / 2"
  "div_double 4 6 = 6004799503160661 / 9007199254740992"
  "div_double 5 6 = 7505999378950827 / 9007199254740992"
  "div_double 6 6 = 1"
  by code_simp+

lemma two_powi_m53: "(2::rat) powi (- 53) = 1 / 9007199254740992"
  by (simp add: power_int_minus_divide)

lemma rat_of_small_int:
  fixes A :: int
  assumes "A < 2 ^ 35"
  shows "(of_int A :: rat) < 34359738368"
proof -
  have "(of_int A :: rat) < of_int (2 ^ 35)"
    using assms by (simp only: of_int_less_iff)
  then show ?thesis by simp
qed

lemma product_close:
  fixes A r :: int and c :: rat
  assumes A: "0 < A" "A < 2 ^ 35" and c: "0 < c" "c \<le> 1"
    and near: "\<bar>c - of_int r / 6\<bar> \<le> 1 / (3 * 2 ^ 53)"
  shows "\<bar>to_double (of_int A * c) - of_int (A * r) / 6\<bar> < 1 / 6"
proof -
  define a :: rat where "a = of_int A"
  define y where "y = a * c"
  have a: "0 < a" "a < 34359738368"
    using A(1) rat_of_small_int [OF A(2)] by (simp_all add: a_def)
  have y: "0 < y" "y \<le> a"
    using a c by (simp_all add: y_def mult_le_cancel_left2)
  have "\<bar>to_double y - y\<bar> \<le> y * 2 powi (- 53)"
    using y(1) by (rule to_double_error)
  then have e1: "\<bar>to_double y - y\<bar> \<le> a / 9007199254740992"
    using y(2) by (simp add: two_powi_m53)
  have "y - a * of_int r / 6 = a * (c - of_int r / 6)"
    by (simp add: y_def right_diff_distrib)
  then have "\<bar>y - a * of_int r / 6\<bar> = a * \<bar>c - of_int r / 6\<bar>"
    using a(1) by (simp add: abs_mult)
  also have "\<dots> \<le> a * (1 / (3 * 2 ^ 53))"
    using near a(1) by (intro mult_left_mono) simp_all
  finally have e2: "\<bar>y - a * of_int r / 6\<bar> \<le> a / 27021597764222976"
    by simp
  have "\<bar>to_double y - a * of_int r / 6\<bar> < 1 / 6"
    using e1 e2 a by linarith
  then show ?thesis
    by (simp add: y_def a_def)
qed

lemma half_on_grid:
  fixes y :: rat
  assumes "0 < y" and "y < 2 powi 35" and "(N + 3) mod 6 = 0"
  shows "\<exists>n. (of_int N / 6 :: rat) = of_int n * 2 powi (binary_exponent y - 52)"
proof -
  obtain k where k: "N + 3 = 6 * k" using assms(3) by (auto simp: mod_eq_0_iff_dvd)
  then have "N = 6 * k - 3" by simp
  then have "(of_int N / 6 :: rat) = of_int (2 * k - 1) * 2 powi (- 1)"
    by (simp add: power_int_minus_divide field_simps)
  moreover have "binary_exponent y - 52 \<le> - 1"
    using exponent_below [OF assms(1,2)] by simp
  ultimately show ?thesis by (rule grid_coarser)
qed

lemma product_half_5:
  fixes A :: int
  assumes "0 < A" and "A < 2 ^ 35" and "(A * 5 + 3) mod 6 = 0"
  shows "of_int (A * 5) / 6 \<le> to_double (of_int A * (7505999378950827 / 9007199254740992))"
proof -
  define a :: rat where "a = of_int A"
  define y where "y = a * (7505999378950827 / 9007199254740992)"
  have a: "0 < a" "a < 34359738368"
    using assms(1) rat_of_small_int [OF assms(2)] by (simp_all add: a_def)
  have y: "0 < y" "y < 2 powi 35" "a * 5 / 6 \<le> y"
    using a by (simp_all add: y_def)
  obtain n where n: "(of_int (A * 5) / 6 :: rat) = of_int n * 2 powi (binary_exponent y - 52)"
    using half_on_grid [OF y(1,2) assms(3)] by blast
  have "of_int (A * 5) / 6 \<le> y" using y(3) by (simp add: a_def)
  with y(1) n have "of_int (A * 5) / 6 \<le> to_double y" by (rule to_double_ge_grid)
  then show ?thesis by (simp add: y_def a_def)
qed

lemma product_half_1:
  fixes A :: int
  assumes "5 \<le> A" and "A < 2 ^ 35" and "(A * 1 + 3) mod 6 = 0"
  shows "of_int (A * 1) / 6 \<le> to_double (of_int A * (6004799503160661 / 36028797018963968))"
proof -
  define a :: rat where "a = of_int A"
  define y where "y = a * (6004799503160661 / 36028797018963968)"
  define e where "e = binary_exponent y"
  have "(of_int 5 :: rat) \<le> of_int A"
    using assms(1) by (simp only: of_int_le_iff)
  then have a: "5 \<le> a" "a < 34359738368"
    using rat_of_small_int [OF assms(2)] by (simp_all add: a_def)
  have y: "0 < y" "y < 2 powi 35" "2 powi (- 1) \<le> y"
    using a by (simp_all add: y_def power_int_minus_divide)
  have e_lo: "- 1 \<le> e" unfolding e_def using y(1,3) by (rule exponent_at_least)
  have y_up: "y < 2 powi (e + 1)"
    unfolding e_def using binary_exponent_bounds [OF y(1)] by simp
  define K :: int where "K = 6 * 2 ^ nat (e + 1)"
  have K: "(of_int K :: rat) = 6 * 2 powi (e + 1)"
    using e_lo by (simp add: K_def two_powi_nat)
  have twelve: "(of_int K :: rat) = 12 * 2 powi e"
    using two_powi_add [of e 1] by (simp add: K)
  have small: "A < K"
  proof (rule ccontr)
    assume "\<not> A < K"
    then have "K \<le> A" by simp
    then have ka: "(of_int K :: rat) \<le> a" by (simp add: a_def)
    have "y * 6 < of_int K" using y_up by (simp add: K)
    then have "a - of_int K < a / 18014398509481984"
      by (simp add: y_def)
    with a(2) have "a - of_int K < 1" by linarith
    then have "(of_int (A - K) :: rat) < 1" by (simp add: a_def)
    then have "A - K < 1" by (simp only: of_int_less_1_iff)
    with \<open>K \<le> A\<close> have "A = K" by simp
    then have "even A" by (simp add: K_def)
    moreover have "odd A" using assms(3) by presburger
    ultimately show False by simp
  qed
  then have a12: "a < 12 * 2 powi e"
    by (simp add: a_def flip: twelve)
  obtain n where n: "(of_int (A * 1) / 6 :: rat) = of_int n * 2 powi (binary_exponent y - 52)"
    using half_on_grid [OF y(1,2) assms(3)] by blast
  have diff: "of_int (A * 1) / 6 - y = a / 108086391056891904"
    by (simp add: y_def a_def)
  have "(2::rat) powi (e - 53) = 2 powi e * 2 powi (- 53)"
    using two_powi_add [of e "- 53"] by simp
  then have ulp: "(2::rat) powi (e - 53) = 2 powi e / 9007199254740992"
    by (simp add: two_powi_m53)
  have "\<bar>y - of_int (A * 1) / 6\<bar> = a / 108086391056891904"
    using diff a(1) by (simp add: abs_if)
  also have "\<dots> < 2 powi (e - 53)"
    using a12 by (simp add: ulp)
  finally have "\<bar>y - of_int (A * 1) / 6\<bar> < 2 powi (binary_exponent y - 53)"
    by (simp add: e_def)
  with y(1) n have "to_double y = of_int (A * 1) / 6"
    by (rule to_double_near_grid)
  then show ?thesis by (simp add: y_def a_def)
qed

lemma Math_round_of_int: "Math_round (of_int n) = n"
  by (simp add: Math_round_def) linarith

lemma score_rounding:
  fixes a r :: int
  assumes "0 \<le> a" and "a < 2 ^ 32" and "0 \<le> r" and "r \<le> 6"
  shows "Math_round (mul_double (of_int (5 * a)) (div_double (of_int r) 6))
           = round (of_int (5 * a * r) / 6 :: rat)"
proof (cases "a = 0")
  case True
  then show ?thesis
    using Math_round_of_int [of 0] by (simp add: mul_double_def to_double_zero)
next
  case False
  define A where "A = 5 * a"
  have A: "5 \<le> A" "0 < A" "A < 2 ^ 35"
    using assms(1,2) False by (simp_all add: A_def)
  have A53: "A < 2 ^ 53" using A(3) by simp
  from assms(3,4) have "r = 0 \<or> r = 1 \<or> r = 2 \<or> r = 3 \<or> r = 4 \<or> r = 5 \<or> r = 6"
    by presburger
  then have "Math_round (mul_double (of_int A) (div_double (of_int r) 6))
               = round (of_int (A * r) / 6 :: rat)"
  proof (elim disjE)
    assume "r = 0"
    then show ?thesis
      using Math_round_of_int [of 0] by (simp add: sixths mul_double_def to_double_zero)
  next
    assume r: "r = 1"
    have "Math_round (to_double (of_int A * (6004799503160661 / 36028797018963968)))
            = round (of_int (A * 1) / 6 :: rat)"
    proof (rule round_near_sixth)
      show "\<bar>to_double (of_int A * (6004799503160661 / 36028797018963968)) - of_int (A * 1) / 6\<bar>
              < 1 / 6"
        using A(2,3) by (rule product_close) simp_all
      show "of_int (A * 1) / 6 \<le> to_double (of_int A * (6004799503160661 / 36028797018963968))"
        if "(A * 1 + 3) mod 6 = 0"
        using A(1,3) that by (rule product_half_1)
    qed
    then show ?thesis by (simp add: r sixths mul_double_def)
  next
    assume r: "r = 2"
    have "Math_round (to_double (of_int A * (6004799503160661 / 18014398509481984)))
            = round (of_int (A * 2) / 6 :: rat)"
    proof (rule round_near_sixth)
      show "\<bar>to_double (of_int A * (6004799503160661 / 18014398509481984)) - of_int (A * 2) / 6\<bar>
              < 1 / 6"
        using A(2,3) by (rule product_close) simp_all
      show "of_int (A * 2) / 6 \<le> to_double (of_int A * (6004799503160661 / 18014398509481984))"
        if "(A * 2 + 3) mod 6 = 0"
      proof -
        from that have False by presburger
        then show ?thesis ..
      qed
    qed
    then show ?thesis by (simp add: r sixths mul_double_def)
  next
    assume r: "r = 3"
    have "to_double (of_int A * (1 / 2)) = of_int A * (1 / 2)"
    proof (rule to_double_dyadic [where m = A and j = "- 1"])
      show "(0::rat) \<le> of_int A * (1 / 2)" using A(2) by simp
      show "(of_int A :: rat) * (1 / 2) = of_int A * 2 powi (- 1)"
        by (simp add: power_int_minus_divide)
      show "(of_int A :: rat) * (1 / 2) < 2 powi (53 + - 1)"
        using rat_of_small_int [OF A(3)] by simp
    qed
    then have "mul_double (of_int A) (div_double (of_int r) 6) = of_int A * (1 / 2)"
      by (simp only: r sixths mul_double_def of_int_numeral)
    moreover have "(of_int (A * r) / 6 :: rat) = of_int A * (1 / 2)" by (simp add: r)
    ultimately show ?thesis
      by (simp only: Math_round_def round_def)
  next
    assume r: "r = 4"
    have "Math_round (to_double (of_int A * (6004799503160661 / 9007199254740992)))
            = round (of_int (A * 4) / 6 :: rat)"
    proof (rule round_near_sixth)
      show "\<bar>to_double (of_int A * (6004799503160661 / 9007199254740992)) - of_int (A * 4) / 6\<bar>
              < 1 / 6"
        using A(2,3) by (rule product_close) simp_all
      show "of_int (A * 4) / 6 \<le> to_double (of_int A * (6004799503160661 / 9007199254740992))"
        if "(A * 4 + 3) mod 6 = 0"
      proof -
        from that have False by presburger
        then show ?thesis ..
      qed
    qed
    then show ?thesis by (simp add: r sixths mul_double_def)
  next
    assume r: "r = 5"
    have "Math_round (to_double (of_int A * (7505999378950827 / 9007199254740992)))
            = round (of_int (A * 5) / 6 :: rat)"
    proof (rule round_near_sixth)
      show "\<bar>to_double (of_int A * (7505999378950827 / 9007199254740992)) - of_int (A * 5) / 6\<bar>
              < 1 / 6"
        using A(2,3) by (rule product_close) simp_all
      show "of_int (A * 5) / 6 \<le> to_double (of_int A * (7505999378950827 / 9007199254740992))"
        if "(A * 5 + 3) mod 6 = 0"
        using A(2,3) that by (rule product_half_5)
    qed
    then show ?thesis by (simp add: r sixths mul_double_def)
  next
    assume r: "r = 6"
    have "to_double (of_int A) = of_int A"
      using A(2) A53 by (intro to_double_int) simp_all
    then show ?thesis
      by (simp add: r sixths mul_double_def Math_round_of_int)
  qed
  then show ?thesis by (simp add: A_def)
qed

lemma calculateWordScore_exact:
  assumes len: "length w < 2 ^ 30" and tries: "0 \<le> tries" "tries \<le> MAX_TRIES"
  shows "calculateWordScore w tries d =
           round (of_nat (length w) * 10 * difficultyMultiplier d * of_int tries / of_int MAX_TRIES :: rat)"
proof -
  define L where "L = int (length w)"
  have L: "0 \<le> L" "L < 2 ^ 30" using len by (simp_all add: L_def)
  define a where "a = (case d of Easy \<Rightarrow> 2 * L | Medium \<Rightarrow> 3 * L | Hard \<Rightarrow> 4 * L)"
  have a: "0 \<le> a" "a < 2 ^ 32" using L by (simp_all add: a_def split: difficulty.splits)
  have t: "0 \<le> tries" "tries \<le> 6" using tries by (simp_all add: MAX_TRIES_def)
  have "to_double (of_int (10 * L)) = of_int (10 * L)"
    using L by (intro to_double_int) simp_all
  then have s1: "mul_double (of_nat (length w)) 10 = of_int (10 * L)"
    by (simp add: mul_double_def L_def mult.commute)
  have fix5: "to_double (of_int (5 * a)) = of_int (5 * a)"
    using a by (intro to_double_int) simp_all
  have "(of_int (10 * L) :: rat) * difficultyMultiplier d = of_int (5 * a)"
    by (simp add: a_def difficultyMultiplier_def split: difficulty.splits)
  then have "mul_double (of_int (10 * L)) (difficultyMultiplier d) = to_double (of_int (5 * a))"
    by (simp only: mul_double_def)
  then have s2: "mul_double (of_int (10 * L)) (difficultyMultiplier d) = of_int (5 * a)"
    by (simp only: fix5)
  have "calculateWordScore w tries d =
          Math_round (mul_double (of_int (5 * a)) (div_double (of_int tries) 6))"
    by (simp only: calculateWordScore_def s1 s2 MAX_TRIES_def of_int_numeral)
  also have "\<dots> = round (of_int (5 * a * tries) / 6 :: rat)"
    using a t by (rule score_rounding)
  also have "(of_int (5 * a * tries) / 6 :: rat) =
      of_nat (length w) * 10 * difficultyMultiplier d * of_int tries / of_int MAX_TRIES"
    by (simp add: a_def L_def difficultyMultiplier_def MAX_TRIES_def split: difficulty.splits)
  finally show ?thesis .
qed


lemma snake_score: "calculateWordScore ''SNAKE'' 6 Easy = 50"
proof -
  have "calculateWordScore ''SNAKE'' 6 Easy =
          round (of_nat (length ''SNAKE'') * 10 * difficultyMultiplier Easy * of_int 6
                   / of_int MAX_TRIES :: rat)"
    by (rule calculateWordScore_exact) (simp_all add: MAX_TRIES_def)
  then show ?thesis
    by (simp add: difficultyMultiplier_def MAX_TRIES_def)
qed

lemma snake_run:
  "guessLetters ''SNAKE'' snake_word_game =
     snake_word_game\<lparr>guessedLetters := set ''EKANS'', score := 50, highScore := 50,
       streak := 1, gameStatus := Won\<rparr>"
  by (simp add: guessLetters_def snake_word_game_def guessLetter_def Let_def MAX_TRIES_def
      snake_score insert_commute)

text \<open>
  Claim C6. In a playing state (the tries left between 0 and \<open>MAX_TRIES\<close>, the word
  shorter than \<open>2^30\<close> characters, more than any engine's strings have), a guess that is
  in the word and completes it sets the status to won and adds to the score exactly
  \<open>round (len * 10 * multiplier * remainingTries / MAX_TRIES)\<close>, the multiplier being 1,
  1.5 or 2, and \<open>round\<close> going to the nearest integer, upwards from a half, as
  \<^verbatim>\<open>Math.round\<close> does: the doubles the code computes with round to the same integer as
  the exact quotient. For the word SNAKE on the easy level, guessing S, N, A, K, E in order
  ends in the status won with 50 points.
\<close>

theorem completing_guess_scores:
  "(gameStatus s = Playing \<and> letter \<in> set (word (currentWord s)) \<and>
    list_all (\<lambda>c. c \<in> insert letter (guessedLetters s)) (word (currentWord s)) \<and>
    0 \<le> remainingTries s \<and> remainingTries s \<le> MAX_TRIES \<and>
    length (word (currentWord s)) < 2 ^ 30
    \<longrightarrow> gameStatus (guessLetter letter s) = Won \<and>
        score (guessLetter letter s) =
          score s + round (of_nat (length (word (currentWord s))) * 10
                           * difficultyMultiplier (wordDifficulty (currentWord s))
                           * of_int (remainingTries s) / of_int MAX_TRIES :: rat)) \<and>
   gameStatus (guessLetters ''SNAKE'' snake_word_game) = Won \<and>
   score (guessLetters ''SNAKE'' snake_word_game) = score snake_word_game + 50 \<and>
   calculateWordScore ''SNAKE'' MAX_TRIES Easy = 50"
proof (intro conjI impI)
  assume a: "gameStatus s = Playing \<and> letter \<in> set (word (currentWord s)) \<and>
    list_all (\<lambda>c. c \<in> insert letter (guessedLetters s)) (word (currentWord s)) \<and>
    0 \<le> remainingTries s \<and> remainingTries s \<le> MAX_TRIES \<and>
    length (word (currentWord s)) < 2 ^ 30"
  then show "gameStatus (guessLetter letter s) = Won"
    by (simp add: guessLetter_def Let_def)
  have "calculateWordScore (word (currentWord s)) (remainingTries s) (wordDifficulty (currentWord s))
          = round (of_nat (length (word (currentWord s))) * 10
                   * difficultyMultiplier (wordDifficulty (currentWord s))
                   * of_int (remainingTries s) / of_int MAX_TRIES :: rat)"
    using a by (intro calculateWordScore_exact) simp_all
  then show "score (guessLetter letter s) =
          score s + round (of_nat (length (word (currentWord s))) * 10
                           * difficultyMultiplier (wordDifficulty (currentWord s))
                           * of_int (remainingTries s) / of_int MAX_TRIES :: rat)"
    using a by (simp add: guessLetter_def Let_def)
next
  show "gameStatus (guessLetters ''SNAKE'' snake_word_game) = Won"
    by (simp add: snake_run)
  show "score (guessLetters ''SNAKE'' snake_word_game) = score snake_word_game + 50"
    by (simp add: snake_run) (simp add: snake_word_game_def)
  show "calculateWordScore ''SNAKE'' MAX_TRIES Easy = 50"
    by (simp add: MAX_TRIES_def snake_score)
qed

theorem completing_guess_scores_witness:
  "gameStatus (guessLetter (CHR ''O'') inception_last_try) = Won \<and>
   score (guessLetter (CHR ''O'') inception_last_try) = 23"
  using completing_guess_scores [of inception_last_try "CHR ''O''"]
  by (simp add: inception_last_try_def MAX_TRIES_def difficultyMultiplier_def round_def)

end
